theory Spec2Isabelle
  imports Complex_Main "HOL-Library.Signed_Division"
begin

section \<open>Fixed-width integers (llvm::APInt)\<close>

text \<open>
  \<open>RangeAnalysis.cpp\<close> computes with \<open>llvm::APInt\<close>: a bit width together with the
  value's bits.  The bits are kept here as the unsigned integer they denote, so an
  \<open>APInt\<close> of width \<open>w\<close> has \<open>0 \<le> VAL < 2 ^ w\<close>.  The operations below are
  the LLVM library operations the analysis calls, with their wrap-around written out.
\<close>

record APInt =
  BitWidth :: nat
  VAL :: int

text \<open>\<open>int64_t\<close> and \<open>uint64_t\<close> values are integers; the casts are written out.\<close>

definition to_uint64 :: "int \<Rightarrow> int" where
  \<comment> \<open>\<open>static_cast<uint64_t>(x)\<close>\<close>
  "to_uint64 x = x mod 2 ^ 64"

definition to_int64 :: "int \<Rightarrow> int" where
  \<comment> \<open>the two's complement reading of the low 64 bits\<close>
  "to_int64 x = (x + 2 ^ 63) mod 2 ^ 64 - 2 ^ 63"

definition mkAPInt :: "nat \<Rightarrow> int \<Rightarrow> bool \<Rightarrow> APInt" where
  \<comment> \<open>\<open>APInt(numBits, val, isSigned)\<close> with \<open>val\<close> a \<open>uint64_t\<close>: the low \<open>numBits\<close> bits of
      \<open>val\<close>, sign-extended from 64 bits first when \<open>isSigned\<close>\<close>
  "mkAPInt numBits val isSigned =
     \<lparr>BitWidth = numBits,
      VAL = (if isSigned then to_int64 val else val) mod 2 ^ numBits\<rparr>"

definition getZero :: "nat \<Rightarrow> APInt" where
  "getZero numBits = \<lparr>BitWidth = numBits, VAL = 0\<rparr>"

definition getMinValue :: "nat \<Rightarrow> APInt" where
  "getMinValue numBits = \<lparr>BitWidth = numBits, VAL = 0\<rparr>"

definition getMaxValue :: "nat \<Rightarrow> APInt" where
  \<comment> \<open>all bits set: the largest unsigned value\<close>
  "getMaxValue numBits = \<lparr>BitWidth = numBits, VAL = 2 ^ numBits - 1\<rparr>"

definition getSignedMinValue :: "nat \<Rightarrow> APInt" where
  \<comment> \<open>only the sign bit set\<close>
  "getSignedMinValue numBits = \<lparr>BitWidth = numBits, VAL = 2 ^ (numBits - 1)\<rparr>"

definition getSignedMaxValue :: "nat \<Rightarrow> APInt" where
  \<comment> \<open>all bits but the sign bit set\<close>
  "getSignedMaxValue numBits = \<lparr>BitWidth = numBits, VAL = 2 ^ (numBits - 1) - 1\<rparr>"

definition isNegative :: "APInt \<Rightarrow> bool" where
  \<comment> \<open>the sign bit is set\<close>
  "isNegative a = (2 ^ (BitWidth a - 1) \<le> VAL a)"

definition isNonNegative :: "APInt \<Rightarrow> bool" where
  "isNonNegative a = (\<not> isNegative a)"

definition isZero :: "APInt \<Rightarrow> bool" where
  "isZero a = (VAL a = 0)"

definition getSExtValue :: "APInt \<Rightarrow> int" where
  "getSExtValue a = (if isNegative a then VAL a - 2 ^ BitWidth a else VAL a)"

definition getZExtValue :: "APInt \<Rightarrow> int" where
  "getZExtValue a = VAL a"

definition sext :: "APInt \<Rightarrow> nat \<Rightarrow> APInt" where
  \<comment> \<open>sign extension to a width that is not smaller\<close>
  "sext a width = \<lparr>BitWidth = width, VAL = getSExtValue a mod 2 ^ width\<rparr>"

definition ult :: "APInt \<Rightarrow> APInt \<Rightarrow> bool" where "ult a b = (VAL a < VAL b)"
definition ule :: "APInt \<Rightarrow> APInt \<Rightarrow> bool" where "ule a b = (VAL a \<le> VAL b)"
definition ugt :: "APInt \<Rightarrow> APInt \<Rightarrow> bool" where "ugt a b = (VAL b < VAL a)"
definition slt :: "APInt \<Rightarrow> APInt \<Rightarrow> bool" where "slt a b = (getSExtValue a < getSExtValue b)"
definition sle :: "APInt \<Rightarrow> APInt \<Rightarrow> bool" where "sle a b = (getSExtValue a \<le> getSExtValue b)"
definition sgt :: "APInt \<Rightarrow> APInt \<Rightarrow> bool" where "sgt a b = (getSExtValue b < getSExtValue a)"
definition sge :: "APInt \<Rightarrow> APInt \<Rightarrow> bool" where "sge a b = (getSExtValue b \<le> getSExtValue a)"

definition APInt_add :: "APInt \<Rightarrow> int \<Rightarrow> APInt" where
  \<comment> \<open>\<open>a + RHS\<close> for a \<open>uint64_t\<close> \<open>RHS\<close>: addition at the width of \<open>a\<close>\<close>
  "APInt_add a rhs = \<lparr>BitWidth = BitWidth a, VAL = (VAL a + rhs) mod 2 ^ BitWidth a\<rparr>"

definition APInt_sub :: "APInt \<Rightarrow> int \<Rightarrow> APInt" where
  \<comment> \<open>\<open>a - RHS\<close> for a \<open>uint64_t\<close> \<open>RHS\<close>: subtraction at the width of \<open>a\<close>\<close>
  "APInt_sub a rhs = \<lparr>BitWidth = BitWidth a, VAL = (VAL a - rhs) mod 2 ^ BitWidth a\<rparr>"

section \<open>Intervals (mlir::ConstantIntRanges)\<close>

text \<open>
  A \<open>ConstantIntRanges\<close> holds four bounds of one width: an unsigned interval and a signed
  interval.  \<open>fromSigned\<close> and \<open>fromUnsigned\<close> keep the bounds they are given and derive the
  other pair; \<open>intersection\<close> and \<open>rangeUnion\<close> work bound by bound.
\<close>

record ConstantIntRanges =
  umin :: APInt
  umax :: APInt
  smin :: APInt
  smax :: APInt

definition fromSigned :: "APInt \<Rightarrow> APInt \<Rightarrow> ConstantIntRanges" where
  "fromSigned smin' smax' =
     (let width = BitWidth smin' in
      if isNonNegative smin' = isNonNegative smax'
      then \<lparr>umin = (if ult smin' smax' then smin' else smax'),
            umax = (if ugt smin' smax' then smin' else smax'),
            smin = smin', smax = smax'\<rparr>
      else \<lparr>umin = getMinValue width, umax = getMaxValue width,
            smin = smin', smax = smax'\<rparr>)"

definition fromUnsigned :: "APInt \<Rightarrow> APInt \<Rightarrow> ConstantIntRanges" where
  "fromUnsigned umin' umax' =
     (let width = BitWidth umin' in
      if isNonNegative umin' = isNonNegative umax'
      then \<lparr>umin = umin', umax = umax',
            smin = (if slt umin' umax' then umin' else umax'),
            smax = (if sgt umin' umax' then umin' else umax')\<rparr>
      else \<lparr>umin = umin', umax = umax',
            smin = getSignedMinValue width, smax = getSignedMaxValue width\<rparr>)"

definition ConstantIntRanges_range :: "APInt \<Rightarrow> APInt \<Rightarrow> bool \<Rightarrow> ConstantIntRanges" where
  "ConstantIntRanges_range min' max' isSigned =
     (if isSigned then fromSigned min' max' else fromUnsigned min' max')"

definition ConstantIntRanges_constant :: "APInt \<Rightarrow> ConstantIntRanges" where
  "ConstantIntRanges_constant v = \<lparr>umin = v, umax = v, smin = v, smax = v\<rparr>"

definition maxRange :: "nat \<Rightarrow> ConstantIntRanges" where
  "maxRange bitwidth = fromUnsigned (getZero bitwidth) (getMaxValue bitwidth)"

definition intersection :: "ConstantIntRanges \<Rightarrow> ConstantIntRanges \<Rightarrow> ConstantIntRanges" where
  "intersection this other =
     (if BitWidth (umin this) = 0 then this
      else if BitWidth (umin other) = 0 then other
      else \<lparr>umin = (if ugt (umin this) (umin other) then umin this else umin other),
            umax = (if ult (umax this) (umax other) then umax this else umax other),
            smin = (if sgt (smin this) (smin other) then smin this else smin other),
            smax = (if slt (smax this) (smax other) then smax this else smax other)\<rparr>)"

definition rangeUnion :: "ConstantIntRanges \<Rightarrow> ConstantIntRanges \<Rightarrow> ConstantIntRanges" where
  "rangeUnion this other =
     (if BitWidth (umin this) = 0 then this
      else if BitWidth (umin other) = 0 then other
      else \<lparr>umin = (if ult (umin this) (umin other) then umin this else umin other),
            umax = (if ugt (umax this) (umax other) then umax this else umax other),
            smin = (if slt (smin this) (smin other) then smin this else smin other),
            smax = (if sgt (smax this) (smax other) then smax this else smax other)\<rparr>)"

section \<open>Values and operations\<close>

text \<open>
  The program representation is MLIR's.  A value carries an identity, its type and the
  operation that defines it (none for a block argument).  An operation carries an
  identity, its kind with the operands that kind has, and its parent operation.
  Values and operations are compared by identity in the source; two different values of
  a model program carry different identities.
\<close>

datatype Type = IndexType | IntegerType nat | RankedTensorType Type | OtherType

datatype Attribute = IntegerAttr APInt | OtherAttr

datatype CmpIPredicate =
  pred_eq | pred_ne | pred_slt | pred_sle | pred_sgt | pred_sge
  | pred_ult | pred_ule | pred_ugt | pred_uge

datatype Value = Value (valueId: nat) (getType: Type) (getDefiningOp: "Operation option")
  and Operation = Operation (opId: nat) (opKind: OpKind) (getParentOp: "Operation option")
  and OpKind =
    ArithConstantOp int
      \<comment> \<open>an integer constant; the argument is the sign-extended value of its attribute\<close>
  | ArithCmpIOp CmpIPredicate Value Value Type
      \<comment> \<open>predicate, left operand, right operand, result type\<close>
  | LoopLikeOp "OpFoldResult option" "OpFoldResult option" "OpFoldResult option" "Value option"
      \<comment> \<open>single lower bound, single upper bound, single step, single induction variable\<close>
  | OtherOp string "Value list"
  and OpFoldResult = AttributeResult Attribute | ValueResult Value

fun getElementTypeOrSelf :: "Type \<Rightarrow> Type" where
  "getElementTypeOrSelf (RankedTensorType t) = t"
| "getElementTypeOrSelf t = t"

definition getStorageBitwidth :: "Type \<Rightarrow> nat" where
  \<comment> \<open>\<open>ConstantIntRanges::getStorageBitwidth\<close>: an index is stored in 64 bits, and a type that
      is neither index nor integer has width 0\<close>
  "getStorageBitwidth type =
     (case getElementTypeOrSelf type of
        IndexType \<Rightarrow> 64
      | IntegerType width \<Rightarrow> width
      | _ \<Rightarrow> 0)"

fun getOperands :: "Operation \<Rightarrow> Value list" where
  "getOperands (Operation i (ArithConstantOp k) p) = []"
| "getOperands (Operation i (ArithCmpIOp predicate lhs rhs ty) p) = [lhs, rhs]"
| "getOperands (Operation i (LoopLikeOp lb ub st iv) p) =
     concat (map (\<lambda>b. case b of Some (ValueResult v) \<Rightarrow> [v] | _ \<Rightarrow> []) [lb, ub, st])"
| "getOperands (Operation i (OtherOp name operands) p) = operands"

definition getConstantIntValue :: "Value \<Rightarrow> int option" where
  \<comment> \<open>\<open>getConstantIntValue(getAsOpFoldResult(v))\<close>: the \<open>int64_t\<close> value of the integer
      constant that defines \<open>v\<close>, if one does\<close>
  "getConstantIntValue v =
     (case getDefiningOp v of
        Some (Operation i (ArithConstantOp k) p) \<Rightarrow> Some k
      | _ \<Rightarrow> None)"

text \<open>
  A lattice cell holds an \<open>IntegerValueRange\<close>: uninitialized (\<open>None\<close>) or a
  \<open>ConstantIntRanges\<close>.
\<close>

type_synonym IntegerValueRange = "ConstantIntRanges option"

definition getMaxRange :: "Value \<Rightarrow> IntegerValueRange" where
  \<comment> \<open>\<open>IntegerValueRange::getMaxRange\<close>\<close>
  "getMaxRange v =
     (let width = getStorageBitwidth (getType v) in
      if width = 0 then None
      else Some \<lparr>umin = getMinValue width, umax = getMaxValue width,
                 smin = getSignedMinValue width, smax = getSignedMaxValue width\<rparr>)"

definition IntegerValueRange_join :: "IntegerValueRange \<Rightarrow> IntegerValueRange \<Rightarrow> IntegerValueRange" where
  \<comment> \<open>\<open>IntegerValueRange::join\<close>\<close>
  "IntegerValueRange_join lhs rhs =
     (case lhs of None \<Rightarrow> rhs
      | Some l \<Rightarrow> (case rhs of None \<Rightarrow> lhs | Some r \<Rightarrow> Some (rangeUnion l r)))"

text \<open>
  Failures of the source are values of the model: a failed \<open>assert\<close> and the dereference
  of a null pointer.
\<close>

datatype error = AssertionFailure string | NullPointerDereference

section \<open>Per-operation inference: the histogram rule\<close>

text \<open>
  \<open>inferResultRangesMaxNonNegSigned\<close> calls \<open>setResultRange\<close> once per result of the
  operation; the calls are returned as the list of their arguments.
\<close>

definition inferResultRangesMaxNonNegSigned :: "Value list \<Rightarrow> (Value \<times> ConstantIntRanges) list" where
  "inferResultRangesMaxNonNegSigned results =
     map (\<lambda>result.
            let bitWidth = getStorageBitwidth (getType result)
            in (result, fromSigned (sext (getZero bitWidth) bitWidth)
                                   (sext (getMaxValue bitWidth) bitWidth)))
         results"

section \<open>Assumptions\<close>

text \<open>
  The free function \<open>maybeGetAssumedRange(assumption, anchor)\<close> derives a range from one
  assumption.  It returns the remarks it emits together with its result.
\<close>

definition maybeGetAssumedRange ::
  "Operation \<Rightarrow> Value \<Rightarrow> error + (string list \<times> ConstantIntRanges option)" where
  "maybeGetAssumedRange assumption anchor =
     (case opKind assumption of
        ArithCmpIOp predicate lhs rhs ty \<Rightarrow>
          (let isSigned = (case predicate of
                             pred_uge \<Rightarrow> False | pred_ugt \<Rightarrow> False
                           | pred_ule \<Rightarrow> False | pred_ult \<Rightarrow> False
                           | _ \<Rightarrow> True);
               anchorIsLhs = (lhs = anchor);
               maybeConstantIntValue = getConstantIntValue (if anchorIsLhs then rhs else lhs)
           in case maybeConstantIntValue of
                Some constValue \<Rightarrow>
                  (let bitWidth = getStorageBitwidth (getType anchor) in
                   if \<not> 0 < bitWidth then Inl (AssertionFailure ''expected non-zero bitwdith'')
                   else
                     let apVal = mkAPInt bitWidth (to_uint64 constValue) isSigned;
                         min' = (if isSigned then getSignedMinValue bitWidth
                                 else getMinValue bitWidth);
                         max' = (if isSigned then getSignedMaxValue bitWidth
                                 else getMaxValue bitWidth);
                         ge = (if anchorIsLhs then ConstantIntRanges_range apVal max' isSigned
                               else ConstantIntRanges_range min' apVal isSigned);
                         gt = (if anchorIsLhs
                               then ConstantIntRanges_range (APInt_add apVal 1) max' isSigned
                               else ConstantIntRanges_range min' (APInt_sub apVal 1) isSigned);
                         le = (if anchorIsLhs then ConstantIntRanges_range min' apVal isSigned
                               else ConstantIntRanges_range apVal max' isSigned);
                         lt = (if anchorIsLhs
                               then ConstantIntRanges_range min' (APInt_sub apVal 1) isSigned
                               else ConstantIntRanges_range (APInt_add apVal 1) max' isSigned)
                     in case predicate of
                          pred_eq \<Rightarrow> Inr ([], Some (ConstantIntRanges_constant apVal))
                        | pred_uge \<Rightarrow> Inr ([], Some ge)
                        | pred_sge \<Rightarrow> Inr ([], Some ge)
                        | pred_ugt \<Rightarrow> Inr ([], Some gt)
                        | pred_sgt \<Rightarrow> Inr ([], Some gt)
                        | pred_ule \<Rightarrow> Inr ([], Some le)
                        | pred_sle \<Rightarrow> Inr ([], Some le)
                        | pred_ult \<Rightarrow> Inr ([], Some lt)
                        | pred_slt \<Rightarrow> Inr ([], Some lt)
                        | pred_ne \<Rightarrow> Inr ([''unsupported cmp predicate for assumption''], None))
              | None \<Rightarrow> Inr ([], None))
      | _ \<Rightarrow> Inr ([''unsupported assumption operation''], None))"

text \<open>
  The member function \<open>maybeGetAssumedRange(anchor)\<close> combines the assumptions registered
  against an anchor.  \<open>assumptions.lookup\<close> gives the empty set for an anchor that is not
  a key.  The loop over the matching assumptions carries the range so far and the remarks.
\<close>

type_synonym Assumptions = "Value \<rightharpoonup> Operation list"

definition lookup :: "Assumptions \<Rightarrow> Value \<Rightarrow> Operation list" where
  "lookup assumptions anchor = (case assumptions anchor of Some ops \<Rightarrow> ops | None \<Rightarrow> [])"

fun intersectAssumptions ::
  "Operation list \<Rightarrow> Value \<Rightarrow> string list \<times> ConstantIntRanges
     \<Rightarrow> error + (string list \<times> ConstantIntRanges)" where
  "intersectAssumptions [] anchor acc = Inr acc"
| "intersectAssumptions (assumption # rest) anchor (remarks, constIntRange) =
     (case maybeGetAssumedRange assumption anchor of
        Inl e \<Rightarrow> Inl e
      | Inr (rs, Some constIntRange') \<Rightarrow>
          intersectAssumptions rest anchor (remarks @ rs, intersection constIntRange constIntRange')
      | Inr (rs, None) \<Rightarrow>
          intersectAssumptions rest anchor (remarks @ rs, constIntRange))"

definition maybeGetAssumedRangeOfAnchor ::
  "Assumptions \<Rightarrow> Value \<Rightarrow> error + (string list \<times> ConstantIntRanges option)" where
  \<comment> \<open>\<open>TritonIntegerRangeAnalysis::maybeGetAssumedRange(Value anchor)\<close>\<close>
  "maybeGetAssumedRangeOfAnchor assumptions anchor =
     (let matchingAssumptions = lookup assumptions anchor in
      if matchingAssumptions = [] then Inr ([], None)
      else
        let bitWidth = getStorageBitwidth (getType anchor) in
        if \<not> 0 < bitWidth then Inl (AssertionFailure ''expected non-zero bitwidth'')
        else (case intersectAssumptions matchingAssumptions anchor ([], maxRange bitWidth) of
                Inl e \<Rightarrow> Inl e
              | Inr (remarks, constIntRange) \<Rightarrow> Inr (remarks, Some constIntRange)))"

text \<open>
  \<open>collectAssumptions\<close> walks the assume statements under the root operation; the walk is
  given as the list of the statements it meets, each with its condition.  The result maps
  a value to the set of condition operations registered against it, in insertion order.
\<close>

datatype AssumeOp = AssumeOp (getCond: Value)

fun registerOperands ::
  "bool \<Rightarrow> Operation \<Rightarrow> Value list \<Rightarrow> Assumptions \<Rightarrow> Assumptions" where
  "registerOperands filterConstants assump [] assumptions = assumptions"
| "registerOperands filterConstants assump (operand # rest) assumptions =
     (if filterConstants \<and> getConstantIntValue operand \<noteq> None
      then registerOperands filterConstants assump rest assumptions
      else registerOperands filterConstants assump rest
             (assumptions(operand \<mapsto>
                (let ops = lookup assumptions operand
                 in if assump \<in> set ops then ops else ops @ [assump]))))"

fun walkAssumeOps :: "bool \<Rightarrow> AssumeOp list \<Rightarrow> Assumptions \<Rightarrow> error + Assumptions" where
  "walkAssumeOps filterConstants [] assumptions = Inr assumptions"
| "walkAssumeOps filterConstants (op # rest) assumptions =
     (case getDefiningOp (getCond op) of
        None \<Rightarrow> Inl NullPointerDereference
      | Some assump \<Rightarrow>
          walkAssumeOps filterConstants rest
            (registerOperands filterConstants assump (getOperands assump) assumptions))"

definition collectAssumptions :: "AssumeOp list \<Rightarrow> bool \<Rightarrow> error + Assumptions" where
  "collectAssumptions assumeOps filterConstants =
     walkAssumeOps filterConstants assumeOps Map.empty"

section \<open>Loop trip counts\<close>

text \<open>
  The solver keeps one lattice cell per value; \<open>None\<close> stands for a value without a cell.
\<close>

type_synonym LatticeStore = "Value \<rightharpoonup> IntegerValueRange"

definition getLatticeElement :: "LatticeStore \<Rightarrow> Value \<Rightarrow> IntegerValueRange" where
  \<comment> \<open>the content of the cell of a value; a cell is created uninitialized\<close>
  "getLatticeElement store v = (case store v of Some r \<Rightarrow> r | None \<Rightarrow> None)"

definition divideCeilSigned :: "int \<Rightarrow> int \<Rightarrow> int" where
  \<comment> \<open>\<open>llvm::divideCeilSigned\<close>; \<open>/\<close> of C++ truncates, which is \<open>sdiv\<close>.  The library
      asserts a non-zero denominator.\<close>
  "divideCeilSigned Numerator Denominator =
     (if Numerator = 0 then 0
      else
        let Bias = (if Denominator \<ge> 0 then 1 else - 1);
            SameSign = ((Numerator \<ge> 0) = (Denominator \<ge> 0))
        in if SameSign then (Numerator - Bias) sdiv Denominator + 1
           else Numerator sdiv Denominator)"

fun isaLoopLikeOpInterface :: "Operation \<Rightarrow> bool" where
  "isaLoopLikeOpInterface (Operation i (LoopLikeOp lb ub st iv) p) = True"
| "isaLoopLikeOpInterface (Operation i k p) = False"

fun getSingleLowerBound :: "Operation \<Rightarrow> OpFoldResult option" where
  "getSingleLowerBound (Operation i (LoopLikeOp lb ub st iv) p) = lb"
| "getSingleLowerBound (Operation i k p) = None"

fun getSingleUpperBound :: "Operation \<Rightarrow> OpFoldResult option" where
  "getSingleUpperBound (Operation i (LoopLikeOp lb ub st iv) p) = ub"
| "getSingleUpperBound (Operation i k p) = None"

fun getSingleStep :: "Operation \<Rightarrow> OpFoldResult option" where
  "getSingleStep (Operation i (LoopLikeOp lb ub st iv) p) = st"
| "getSingleStep (Operation i k p) = None"

fun getSingleInductionVar :: "Operation \<Rightarrow> Value option" where
  "getSingleInductionVar (Operation i (LoopLikeOp lb ub st iv) p) = iv"
| "getSingleInductionVar (Operation i k p) = None"

text \<open>
  The lambda \<open>getLoopRangeInfo\<close> of \<open>maybeGetTripCount\<close>.  Its parameter \<open>getUpper\<close> is a
  \<open>std::optional<bool>\<close>, and the conditions \<open>getUpper ? \<dots> : \<dots>\<close> convert it to \<open>bool\<close>:
  they test whether it holds a value, not the value it holds.
\<close>

definition getLoopRangeInfo ::
  "LatticeStore \<Rightarrow> nat \<Rightarrow> OpFoldResult option \<Rightarrow> bool option \<Rightarrow> APInt option \<Rightarrow> APInt" where
  "getLoopRangeInfo store width loopBound getUpper defaultVal =
     (case (case loopBound of
              Some (AttributeResult attr) \<Rightarrow>
                (case attr of IntegerAttr bound \<Rightarrow> Some bound | _ \<Rightarrow> None)
            | Some (ValueResult v) \<Rightarrow>
                (case store v of
                   Some (Some r) \<Rightarrow> Some (if getUpper \<noteq> None then smax r else smin r)
                 | _ \<Rightarrow> None)
            | None \<Rightarrow> None) of
        Some found \<Rightarrow> found
      | None \<Rightarrow>
          (case defaultVal of
             Some d \<Rightarrow> d
           | None \<Rightarrow> if getUpper \<noteq> None then getSignedMaxValue width
                     else getSignedMinValue width))"

definition maybeGetTripCount :: "LatticeStore \<Rightarrow> Operation \<Rightarrow> int option" where
  \<comment> \<open>the difference of the two \<open>int64_t\<close> values is taken in 64 bits\<close>
  "maybeGetTripCount store loop =
     (case getSingleInductionVar loop of
        None \<Rightarrow> None
      | Some iv \<Rightarrow>
          let width = getStorageBitwidth (getType iv);
              min0 = getLoopRangeInfo store width (getSingleLowerBound loop) (Some False) None;
              max0 = getLoopRangeInfo store width (getSingleUpperBound loop) (Some True) None;
              stepValDefault = mkAPInt width 1 True;
              stepVal0 = getLoopRangeInfo store width (getSingleStep loop) None (Some stepValDefault);
              min' = (if isNegative stepVal0 then max0 else min0);
              max' = (if isNegative stepVal0 then min0 else max0);
              stepVal = (if isZero stepVal0 then stepValDefault else stepVal0)
          in if sge max' min'
             then Some (divideCeilSigned (to_int64 (getSExtValue max' - getSExtValue min'))
                                         (getSExtValue stepVal))
             else None)"

definition kDefaultMaxTripCount :: int where
  "kDefaultMaxTripCount = 1024"

definition kDefaultMaxPrograms :: int where
  "kDefaultMaxPrograms = 65536"

text \<open>
  \<open>getEnclosingLoops\<close> walks the parent operations outward and appends the loop-like ones;
  \<open>enclosingLoopsFrom\<close> is its \<open>while\<close> loop on \<open>currOp\<close>.
\<close>

fun enclosingLoopsFrom :: "Operation option \<Rightarrow> Operation list \<Rightarrow> Operation list" where
  "enclosingLoopsFrom None ops = ops"
| "enclosingLoopsFrom (Some (Operation i k p)) ops =
     enclosingLoopsFrom p
       (if isaLoopLikeOpInterface (Operation i k p) then ops @ [Operation i k p] else ops)"

definition getEnclosingLoops :: "Operation \<Rightarrow> Operation list \<Rightarrow> Operation list" where
  "getEnclosingLoops op ops = enclosingLoopsFrom (getParentOp op) ops"

definition getTotalLoopTripCount :: "LatticeStore \<Rightarrow> Operation \<Rightarrow> int" where
  \<comment> \<open>\<open>std::accumulate\<close> with an \<open>int64_t\<close> accumulator: each product is taken in 64 bits\<close>
  "getTotalLoopTripCount store loop =
     (let loops = getEnclosingLoops loop [loop]
      in foldl (\<lambda>accum loop'.
                  to_int64 (accum * (case maybeGetTripCount store loop' of
                                       Some t \<Rightarrow> t
                                     | None \<Rightarrow> kDefaultMaxTripCount + 1)))
               1 loops)"

text \<open>
  The specification's words for the total trip count: the loop itself and every
  statically enclosing loop, each with its own trip count or the sentinel.
\<close>

fun ancestors :: "Operation \<Rightarrow> Operation list" where
  "ancestors (Operation i k None) = []"
| "ancestors (Operation i k (Some p)) = p # ancestors p"

definition tripCountOrSentinel :: "LatticeStore \<Rightarrow> Operation \<Rightarrow> int" where
  "tripCountOrSentinel store loop =
     (case maybeGetTripCount store loop of Some t \<Rightarrow> t | None \<Rightarrow> 1024 + 1)"

definition productOfTripCounts :: "LatticeStore \<Rightarrow> Operation \<Rightarrow> int" where
  "productOfTripCounts store loop =
     prod_list (map (tripCountOrSentinel store)
                    (loop # filter isaLoopLikeOpInterface (ancestors loop)))"

definition wellFormed :: "APInt \<Rightarrow> bool" where
  \<comment> \<open>the invariant of an \<open>APInt\<close> of non-zero width\<close>
  "wellFormed a = (0 < BitWidth a \<and> 0 \<le> VAL a \<and> VAL a < 2 ^ BitWidth a)"

definition ex_attr :: "int \<Rightarrow> OpFoldResult" where
  \<comment> \<open>a 32-bit integer attribute\<close>
  "ex_attr k = AttributeResult (IntegerAttr (mkAPInt 32 (to_uint64 k) True))"

definition ex_loop :: "nat \<Rightarrow> int \<Rightarrow> int \<Rightarrow> int \<Rightarrow> Operation option \<Rightarrow> Operation" where
  \<comment> \<open>a loop with literal bounds and step and an \<open>i32\<close> induction variable\<close>
  "ex_loop n lb ub st parent =
     Operation n (LoopLikeOp (Some (ex_attr lb)) (Some (ex_attr ub)) (Some (ex_attr st))
                             (Some (Value (1000 + n) (IntegerType 32) None))) parent"

section \<open>Reading a derived range\<close>

text \<open>
  The bounds of a range are read as integers in the signedness of the predicate that
  produced it: the signed pair \<open>smin\<close>, \<open>smax\<close> as two's complement numbers, the unsigned
  pair \<open>umin\<close>, \<open>umax\<close> as natural numbers.  \<open>tableRange\<close> is the table of the
  specification for one assumption \<open>P(lhs, rhs)\<close> with the constant \<open>k\<close> on one side.
\<close>

definition isSignedPredicate :: "CmpIPredicate \<Rightarrow> bool" where
  "isSignedPredicate p = (p \<notin> {pred_uge, pred_ugt, pred_ule, pred_ult})"

definition lowerBound :: "bool \<Rightarrow> ConstantIntRanges \<Rightarrow> int" where
  "lowerBound isSigned r = (if isSigned then getSExtValue (smin r) else getZExtValue (umin r))"

definition upperBound :: "bool \<Rightarrow> ConstantIntRanges \<Rightarrow> int" where
  "upperBound isSigned r = (if isSigned then getSExtValue (smax r) else getZExtValue (umax r))"

definition minFor :: "bool \<Rightarrow> nat \<Rightarrow> int" where
  "minFor isSigned w = (if isSigned then - (2 ^ (w - 1)) else 0)"

definition maxFor :: "bool \<Rightarrow> nat \<Rightarrow> int" where
  "maxFor isSigned w = (if isSigned then 2 ^ (w - 1) - 1 else 2 ^ w - 1)"

definition readConstant :: "bool \<Rightarrow> nat \<Rightarrow> int \<Rightarrow> int" where
  \<comment> \<open>the number that the low \<open>w\<close> bits of \<open>k\<close> denote\<close>
  "readConstant isSigned w k =
     (if isSigned then (k + 2 ^ (w - 1)) mod 2 ^ w - 2 ^ (w - 1) else k mod 2 ^ w)"

definition tableRange :: "CmpIPredicate \<Rightarrow> bool \<Rightarrow> int \<Rightarrow> int \<Rightarrow> int \<Rightarrow> (int \<times> int) option" where
  "tableRange p anchorOnLeft k mn mx =
     (if p = pred_eq then Some (k, k)
      else if p \<in> {pred_sge, pred_uge} then Some (if anchorOnLeft then (k, mx) else (mn, k))
      else if p \<in> {pred_sgt, pred_ugt} then Some (if anchorOnLeft then (k + 1, mx) else (mn, k - 1))
      else if p \<in> {pred_sle, pred_ule} then Some (if anchorOnLeft then (mn, k) else (k, mx))
      else if p \<in> {pred_slt, pred_ult} then Some (if anchorOnLeft then (mn, k - 1) else (k + 1, mx))
      else None)"

section \<open>Example programs\<close>

text \<open>
  Values of type \<open>i8\<close>, integer constants of type \<open>i8\<close> and comparisons, used where a
  property is shown at a concrete program.
\<close>

definition ex_i8 :: "nat \<Rightarrow> Value" where
  "ex_i8 n = Value n (IntegerType 8) None"

definition ex_const :: "nat \<Rightarrow> int \<Rightarrow> Value" where
  "ex_const n k = Value n (IntegerType 8) (Some (Operation (100 + n) (ArithConstantOp k) None))"

definition ex_cmp :: "nat \<Rightarrow> CmpIPredicate \<Rightarrow> Value \<Rightarrow> Value \<Rightarrow> Operation" where
  "ex_cmp n p l r = Operation n (ArithCmpIOp p l r (IntegerType 1)) None"

section \<open>Membership in a range\<close>

text \<open>
  A value lies in a range when it lies between the unsigned bounds and between the signed
  bounds.  \<open>derivedRanges\<close> lists the ranges that the assumptions of a list yield for an
  anchor, in order.
\<close>

definition rangeContains :: "ConstantIntRanges \<Rightarrow> APInt \<Rightarrow> bool" where
  "rangeContains r v = (ule (umin r) v \<and> ule v (umax r) \<and> sle (smin r) v \<and> sle v (smax r))"

definition derivedRanges :: "Operation list \<Rightarrow> Value \<Rightarrow> ConstantIntRanges list" where
  "derivedRanges ops anchor =
     concat (map (\<lambda>a. case maybeGetAssumedRange a anchor of
                         Inr (rs, Some r) \<Rightarrow> [r]
                       | _ \<Rightarrow> []) ops)"

definition ex_assumptions :: "Value \<rightharpoonup> Operation list" where
  "ex_assumptions = [ex_i8 0 \<mapsto> [ex_cmp 20 pred_sge (ex_i8 0) (ex_const 1 5),
                                 ex_cmp 21 pred_sle (ex_i8 0) (ex_const 2 100)]]"

definition ex_nest :: Operation where
  \<comment> \<open>a loop in a conditional in a loop without induction variable in a loop\<close>
  "ex_nest = ex_loop 1 0 10 1 (Some (Operation 2 (OtherOp ''scf.if'' [])
                 (Some (Operation 3 (LoopLikeOp None None None None) (Some (ex_loop 4 0 7 1 None))))))"

definition ex_index_loop :: "nat \<Rightarrow> Operation option \<Rightarrow> Operation" where
  \<comment> \<open>a loop from 0 by 1 with an \<open>index\<close> induction variable and an upper bound whose range
      is not known\<close>
  "ex_index_loop n parent =
     Operation n (LoopLikeOp (Some (ex_attr 0)) (Some (ValueResult (Value (2000 + n) IndexType None)))
                             (Some (ex_attr 1)) (Some (Value (1000 + n) IndexType None))) parent"

definition ex_index_nest :: Operation where
  "ex_index_nest = ex_index_loop 1 (Some (ex_index_loop 2 None))"

definition ex_i32_nest :: Operation where
  \<comment> \<open>three nested loops of \<open>2 ^ 31 - 1\<close> iterations each\<close>
  "ex_i32_nest =
     ex_loop 1 0 2147483647 1 (Some (ex_loop 2 0 2147483647 1 (Some (ex_loop 3 0 2147483647 1 None))))"

section \<open>The region-successor driver\<close>

text \<open>
  The state of one analysis run: the assumption index, the trip-count bound per loop, the
  visit counter per loop and cell, and the solver's lattice cells.  A cell is named by
  the value it belongs to.  \<open>loopTripCounts\<close> is a map whose membership the driver
  tests; \<open>loopVisits\<close> is only read and written by key, and a missing counter reads as 0.
\<close>

record TritonIntegerRangeAnalysis =
  assumptions :: Assumptions
  loopTripCounts :: "Operation \<rightharpoonup> int"
  loopVisits :: "Operation \<times> Value \<Rightarrow> int"
  latticeValues :: LatticeStore

definition loopTripCountsAt :: "TritonIntegerRangeAnalysis \<Rightarrow> Operation \<Rightarrow> int" where
  \<comment> \<open>\<open>loopTripCounts[loop]\<close>\<close>
  "loopTripCountsAt st loop = (case loopTripCounts st loop of Some t \<Rightarrow> t | None \<Rightarrow> 0)"

definition Lattice_join :: "Value \<Rightarrow> IntegerValueRange \<Rightarrow> LatticeStore \<Rightarrow> bool \<times> LatticeStore" where
  \<comment> \<open>\<open>Lattice::join\<close> on the cell of a value; the first component tells whether the cell
      changed\<close>
  "Lattice_join cell rhs store =
     (let value = getLatticeElement store cell;
          newValue = IntegerValueRange_join value rhs
      in if newValue = value then (False, store)
         else (True, store(cell \<mapsto> newValue)))"

definition isaIndexOrIntegerType :: "Type \<Rightarrow> bool" where
  "isaIndexOrIntegerType t = (case t of IndexType \<Rightarrow> True | IntegerType w \<Rightarrow> True | _ \<Rightarrow> False)"

definition setToEntryState ::
  "Value \<Rightarrow> TritonIntegerRangeAnalysis \<Rightarrow> error + TritonIntegerRangeAnalysis" where
  "setToEntryState anchor st =
     (if \<not> isaIndexOrIntegerType (getElementTypeOrSelf (getType anchor)) then Inr st
      else
        case maybeGetAssumedRangeOfAnchor (assumptions st) anchor of
          Inl e \<Rightarrow> Inl e
        | Inr (remarks, maybeRange) \<Rightarrow>
            let range = (case maybeRange of Some r \<Rightarrow> Some r | None \<Rightarrow> getMaxRange anchor)
            in Inr (st\<lparr>latticeValues := snd (Lattice_join anchor range (latticeValues st))\<rparr>))"

fun setAllToEntryStates ::
  "Value list \<Rightarrow> TritonIntegerRangeAnalysis \<Rightarrow> error + TritonIntegerRangeAnalysis" where
  "setAllToEntryStates [] st = Inr st"
| "setAllToEntryStates (lattice # rest) st =
     (case setToEntryState lattice st of
        Inl e \<Rightarrow> Inl e
      | Inr st' \<Rightarrow> setAllToEntryStates rest st')"

text \<open>
  Lines 479 to 498: on the first visit of a loop its bound is set to the largest
  \<open>int64_t\<close> and the counters of the cells at hand to 0; on every visit the total trip
  count is computed again and the smaller bound is kept.
\<close>

definition updateLoopTripCount ::
  "Operation \<Rightarrow> Value list \<Rightarrow> TritonIntegerRangeAnalysis \<Rightarrow> TritonIntegerRangeAnalysis" where
  "updateLoopTripCount loop lattices st =
     (let st1 = (if loopTripCounts st loop = None
                 then st\<lparr>loopTripCounts := (loopTripCounts st)(loop \<mapsto> 2 ^ 63 - 1),
                         loopVisits := foldl (\<lambda>visits argLat. visits((loop, argLat) := 0))
                                             (loopVisits st) lattices\<rparr>
                 else st);
          loopTripCount = getTotalLoopTripCount (latticeValues st1) loop
      in if loopTripCount < loopTripCountsAt st1 loop
         then st1\<lparr>loopTripCounts := (loopTripCounts st1)(loop \<mapsto> loopTripCount)\<rparr>
         else st1)"

text \<open>
  Lines 545 to 576: the body of the loop over the pairs of a forwarded operand and the
  cell that receives it.
\<close>

definition visitOperand ::
  "Operation option \<Rightarrow> Value \<times> Value \<Rightarrow> TritonIntegerRangeAnalysis \<Rightarrow> TritonIntegerRangeAnalysis" where
  "visitOperand loop pair st =
     (case pair of (oper, argLat) \<Rightarrow>
        (case loop of
           None \<Rightarrow>
             st\<lparr>latticeValues :=
                  snd (Lattice_join argLat (getLatticeElement (latticeValues st) oper)
                                    (latticeValues st))\<rparr>
         | Some l \<Rightarrow>
             if loopVisits st (l, argLat) \<ge> loopTripCountsAt st l then st
             else
               let (changed, store') =
                     (if loopTripCountsAt st l > kDefaultMaxTripCount
                      then Lattice_join argLat (getMaxRange oper) (latticeValues st)
                      else Lattice_join argLat (getLatticeElement (latticeValues st) oper)
                                        (latticeValues st));
                   st' = st\<lparr>latticeValues := store'\<rparr>
               in if changed
                  then st'\<lparr>loopVisits := (loopVisits st')((l, argLat) := loopVisits st' (l, argLat) + 1)\<rparr>
                  else st'))"

text \<open>
  A predecessor of the successor: the operands it forwards (none when the operation is
  neither the branch nor a region terminator), the number of successor inputs, and the
  result or argument number of the first input.  \<open>visitNonControlFlowArguments\<close> belongs to
  the base class; it is a parameter, and it acts on lattice cells only.
\<close>

record Predecessor =
  successorOperands :: "Value list option"
  inputsSize :: nat
  inputsFrontNumber :: nat

type_synonym NonControlFlowVisitor =
  "bool \<Rightarrow> Operation \<Rightarrow> nat \<Rightarrow> nat \<Rightarrow> Value list \<Rightarrow> LatticeStore \<Rightarrow> LatticeStore"

fun visitPredecessors ::
  "NonControlFlowVisitor \<Rightarrow> bool \<Rightarrow> Operation \<Rightarrow> Operation option \<Rightarrow> Value list
     \<Rightarrow> Predecessor list \<Rightarrow> TritonIntegerRangeAnalysis \<Rightarrow> error + TritonIntegerRangeAnalysis" where
  "visitPredecessors visitNonControlFlowArguments isBlockStart branch loop lattices [] st = Inr st"
| "visitPredecessors visitNonControlFlowArguments isBlockStart branch loop lattices (op # rest) st =
     (case successorOperands op of
        None \<Rightarrow> setAllToEntryStates lattices st
      | Some operands \<Rightarrow>
          if inputsSize op \<noteq> length operands
          then Inl (AssertionFailure ''expected the same number of successor inputs as operands'')
          else
            let firstIndex = (if inputsSize op \<noteq> length lattices \<and> inputsSize op \<noteq> 0
                              then inputsFrontNumber op else 0);
                st1 = (if inputsSize op \<noteq> length lattices
                       then st\<lparr>latticeValues :=
                                 visitNonControlFlowArguments isBlockStart branch firstIndex
                                   (inputsSize op) lattices (latticeValues st)\<rparr>
                       else st);
                st2 = foldl (\<lambda>s pair. visitOperand loop pair s) st1
                            (zip operands (drop firstIndex lattices))
            in visitPredecessors visitNonControlFlowArguments isBlockStart branch loop lattices rest st2)"

definition visitRegionSuccessors ::
  "NonControlFlowVisitor \<Rightarrow> bool \<Rightarrow> Operation \<Rightarrow> Value list \<Rightarrow> bool \<Rightarrow> Predecessor list
     \<Rightarrow> TritonIntegerRangeAnalysis \<Rightarrow> error + TritonIntegerRangeAnalysis" where
  "visitRegionSuccessors visitNonControlFlowArguments isBlockStart branch lattices
       allPredecessorsKnown knownPredecessors st =
     (let loop = (if isaLoopLikeOpInterface branch then Some branch else None);
          st1 = (case loop of Some l \<Rightarrow> updateLoopTripCount l lattices st | None \<Rightarrow> st)
      in if \<not> allPredecessorsKnown
         then Inl (AssertionFailure ''unexpected unresolved region successors'')
         else visitPredecessors visitNonControlFlowArguments isBlockStart branch loop lattices
                knownPredecessors st1)"

definition initialState :: "Assumptions \<Rightarrow> LatticeStore \<Rightarrow> TritonIntegerRangeAnalysis" where
  \<comment> \<open>a fresh analysis: no loop recorded, every counter 0\<close>
  "initialState registered store =
     \<lparr>assumptions = registered, loopTripCounts = Map.empty, loopVisits = (\<lambda>key. 0),
      latticeValues = store\<rparr>"





section \<open>Example runs\<close>

text \<open>
  Values of type \<open>i32\<close>, cells holding a signed interval, a predecessor forwarding one
  operand, and a base class that leaves the other arguments alone.  \<open>ex_wide_visit\<close> is
  one visit of a loop of 2000 iterations.  \<open>ex_visit1\<close> and \<open>ex_visit2\<close> are two visits
  of a loop from 0 to a value that has no range at the first visit and the range
  \<open>[0, 0]\<close> at the second.
\<close>

definition ex_i32 :: "nat \<Rightarrow> Value" where
  "ex_i32 n = Value n (IntegerType 32) None"

definition ex_range :: "int \<Rightarrow> int \<Rightarrow> IntegerValueRange" where
  "ex_range lo hi = Some (ConstantIntRanges_range (mkAPInt 32 (to_uint64 lo) True) (mkAPInt 32 (to_uint64 hi) True) True)"

definition ex_noVisitor :: NonControlFlowVisitor where
  "ex_noVisitor isBlockStart branch firstIndex n lattices store = store"

definition ex_pred :: "Value \<Rightarrow> Predecessor" where
  "ex_pred v = \<lparr>successorOperands = Some [v], inputsSize = 1, inputsFrontNumber = 0\<rparr>"

definition ex_wide_visit :: "error + TritonIntegerRangeAnalysis" where
  "ex_wide_visit =
     visitRegionSuccessors ex_noVisitor True (ex_loop 1 0 2000 1 None) [ex_i32 50] True [ex_pred (ex_i32 51)]
       (initialState Map.empty [ex_i32 51 \<mapsto> ex_range 0 0])"

definition ex_wide_state :: TritonIntegerRangeAnalysis where
  "ex_wide_state =
     updateLoopTripCount (ex_loop 1 0 2000 1 None) [ex_i32 50]
       (initialState Map.empty [ex_i32 51 \<mapsto> ex_range 0 0])"










section \<open>Static-comparison folding\<close>

































section \<open>Properties\<close>

subsection \<open>The histogram rule\<close>

text \<open>
  C1.  The specification gives the result of a histogram-count operation the range
  \<open>[0, max-signed-for-width]\<close>.  The rule builds its upper bound from
  \<open>APInt::getMaxValue\<close>, the largest unsigned value (all bits set), and hands it to
  \<open>fromSigned\<close>: for a 32-bit result the signed interval is \<open>[0, -1]\<close> and the unsigned
  interval is \<open>[0, 4294967295]\<close>, where the signed maximum of the width is 2147483647.
\<close>

theorem histogram_i32_range:
  "map (\<lambda>(v, r). (getSExtValue (smin r), getSExtValue (smax r),
                  getZExtValue (umin r), getZExtValue (umax r)))
       (inferResultRangesMaxNonNegSigned [Value 7 (IntegerType 32) None])
     = [(0, - 1, 0, 4294967295)]
   \<and> getSExtValue (getSignedMaxValue 32) = 2147483647"
  by code_simp

subsection \<open>Collecting assumptions\<close>

text \<open>
  C5.  An assume statement whose condition has no defining operation (a block argument)
  is not skipped: \<open>collectAssumptions\<close> takes the operands of the defining operation
  without testing it, and the walk ends in the dereference of a null pointer.
\<close>

theorem collectAssumptions_block_argument:
  "collectAssumptions [AssumeOp (Value 0 (IntegerType 1) None)] True = Inl NullPointerDereference"
  by (simp add: collectAssumptions_def)

subsection \<open>Arithmetic of fixed-width values\<close>

lemma mod_pow2_cancel:
  "w \<le> n \<Longrightarrow> x mod 2 ^ n mod 2 ^ w = x mod (2 ^ w :: int)"
  by (rule mod_mod_cancel) (rule le_imp_power_dvd)

lemma to_int64_to_uint64:
  assumes "- (2 ^ 63) \<le> k" "k < 2 ^ 63"
  shows "to_int64 (to_uint64 k) = k"
proof -
  have "(k mod 2 ^ 64 + 2 ^ 63) mod 2 ^ 64 = (k + 2 ^ 63) mod (2 ^ 64 :: int)"
    by (simp add: mod_add_left_eq)
  also have "\<dots> = k + 2 ^ 63"
    using assms by (intro mod_pos_pos_trivial) simp_all
  finally show ?thesis by (simp add: to_int64_def to_uint64_def)
qed

lemma to_int64_mod:
  assumes "w \<le> 64"
  shows "to_int64 x mod 2 ^ w = x mod (2 ^ w :: int)"
proof -
  have "to_int64 x mod 2 ^ w = (((x + 2 ^ 63) mod 2 ^ 64) mod 2 ^ w - 2 ^ 63 mod 2 ^ w) mod (2 ^ w :: int)"
    unfolding to_int64_def by (rule mod_diff_eq [symmetric])
  also have "((x + 2 ^ 63) mod 2 ^ 64) mod 2 ^ w = (x + 2 ^ 63) mod (2 ^ w :: int)"
    using assms by (rule mod_pow2_cancel)
  also have "((x + 2 ^ 63) mod 2 ^ w - 2 ^ 63 mod 2 ^ w) mod (2 ^ w :: int) = (x + 2 ^ 63 - 2 ^ 63) mod 2 ^ w"
    by (rule mod_diff_eq)
  finally show ?thesis by simp
qed

lemma VAL_mkAPInt:
  assumes "w \<le> 64 \<or> (- (2 ^ 63) \<le> k \<and> k < 2 ^ 63 \<and> (isSigned \<or> 0 \<le> k))"
  shows "VAL (mkAPInt w (to_uint64 k) isSigned) = k mod 2 ^ w"
proof (cases "w \<le> 64")
  case True
  have "to_uint64 k mod 2 ^ w = k mod 2 ^ w"
    unfolding to_uint64_def using True by (rule mod_pow2_cancel)
  then show ?thesis using True by (simp add: mkAPInt_def to_int64_mod)
next
  case False
  with assms have k: "- (2 ^ 63) \<le> k" "k < 2 ^ 63" and s: "isSigned \<or> 0 \<le> k" by auto
  show ?thesis
  proof (cases isSigned)
    case True
    then show ?thesis using k by (simp add: mkAPInt_def to_int64_to_uint64)
  next
    case False
    with s have "0 \<le> k" by simp
    then have "to_uint64 k = k" using k by (simp add: to_uint64_def)
    then show ?thesis using False by (simp add: mkAPInt_def)
  qed
qed

lemma pow2_double: "0 < w \<Longrightarrow> (2 :: int) ^ w = 2 * 2 ^ (w - 1)"
  by (cases w) simp_all

lemma mod_pow2_shift_down:
  fixes m W :: int
  assumes "W \<le> m" "m < 2 * W"
  shows "m mod W = m - W"
proof -
  have "m mod W = (m - W) mod W" by (rule minus_mod_self2 [symmetric])
  also have "\<dots> = m - W" using assms by (intro mod_pos_pos_trivial) linarith+
  finally show ?thesis .
qed

lemma getSExtValue_mod:
  assumes "0 < w"
  shows "getSExtValue \<lparr>BitWidth = w, VAL = x mod 2 ^ w\<rparr> = (x + 2 ^ (w - 1)) mod 2 ^ w - 2 ^ (w - 1)"
proof -
  have W: "(2 :: int) ^ w = 2 * 2 ^ (w - 1)" using assms by (rule pow2_double)
  have m: "0 \<le> x mod 2 ^ w" "x mod 2 ^ w < (2 :: int) ^ w" by simp_all
  have hpos: "0 < (2 :: int) ^ (w - 1)" by simp
  have shift: "(x + 2 ^ (w - 1)) mod 2 ^ w = (x mod 2 ^ w + 2 ^ (w - 1)) mod (2 ^ w :: int)"
    by (rule mod_add_left_eq [symmetric])
  have unf: "getSExtValue \<lparr>BitWidth = w, VAL = x mod 2 ^ w\<rparr> =
     (if 2 ^ (w - 1) \<le> x mod 2 ^ w then x mod 2 ^ w - 2 ^ w else x mod 2 ^ w)"
    unfolding getSExtValue_def isNegative_def by simp
  show ?thesis
  proof (cases "2 ^ (w - 1) \<le> x mod (2 :: int) ^ w")
    case True
    have "(x mod 2 ^ w + 2 ^ (w - 1)) mod (2 ^ w :: int) = x mod 2 ^ w + 2 ^ (w - 1) - 2 ^ w"
      using True m W by (intro mod_pow2_shift_down) linarith+
    moreover from unf True have "getSExtValue \<lparr>BitWidth = w, VAL = x mod 2 ^ w\<rparr> = x mod 2 ^ w - 2 ^ w"
      by simp
    ultimately show ?thesis using shift W by linarith
  next
    case False
    have "(x mod 2 ^ w + 2 ^ (w - 1)) mod (2 ^ w :: int) = x mod 2 ^ w + 2 ^ (w - 1)"
      using False m W by (intro mod_pos_pos_trivial) linarith+
    moreover from unf False have "getSExtValue \<lparr>BitWidth = w, VAL = x mod 2 ^ w\<rparr> = x mod 2 ^ w"
      by simp
    ultimately show ?thesis using shift by linarith
  qed
qed

lemma readBound_mod:
  "0 < w \<Longrightarrow> (if s then getSExtValue \<lparr>BitWidth = w, VAL = x mod 2 ^ w\<rparr>
               else getZExtValue \<lparr>BitWidth = w, VAL = x mod 2 ^ w\<rparr>) = readConstant s w x"
  unfolding readConstant_def getZExtValue_def by (simp only: getSExtValue_mod) simp

lemma readConstant_range:
  assumes "0 < w"
  shows "minFor s w \<le> readConstant s w k" "readConstant s w k \<le> maxFor s w"
proof -
  have W: "(2 :: int) ^ w = 2 * 2 ^ (w - 1)" using assms by (rule pow2_double)
  have b: "0 \<le> (k + 2 ^ (w - 1)) mod 2 ^ w" "(k + 2 ^ (w - 1)) mod 2 ^ w < (2::int) ^ w"
       "0 \<le> k mod 2 ^ w" "k mod 2 ^ w < (2::int) ^ w"
    by simp_all
  show "minFor s w \<le> readConstant s w k"
    unfolding minFor_def readConstant_def using b W by (cases s) auto
  show "readConstant s w k \<le> maxFor s w"
    unfolding maxFor_def readConstant_def using b W by (cases s) auto
qed

lemma mod_pow2_succ:
  fixes y W :: int
  assumes "0 < W" "y mod W + 1 < W"
  shows "(y + 1) mod W = y mod W + 1"
proof -
  have "(y + 1) mod W = (y mod W + 1) mod W" by (rule mod_add_left_eq [symmetric])
  also have "\<dots> = y mod W + 1" using assms by (intro mod_pos_pos_trivial) simp_all
  finally show ?thesis .
qed

lemma mod_pow2_pred:
  fixes y W :: int
  assumes "0 < W" "0 < y mod W"
  shows "(y - 1) mod W = y mod W - 1"
proof -
  have "y mod W < W" using assms(1) by simp
  have "(y - 1) mod W = (y mod W - 1) mod W" by (rule mod_diff_left_eq [symmetric])
  also have "\<dots> = y mod W - 1" using assms \<open>y mod W < W\<close> by (intro mod_pos_pos_trivial) linarith+
  finally show ?thesis .
qed

lemma readConstant_succ:
  assumes "0 < w" "readConstant s w k + 1 \<le> maxFor s w"
  shows "readConstant s w (k + 1) = readConstant s w k + 1"
proof (cases s)
  case True
  have W: "(2 :: int) ^ w = 2 * 2 ^ (w - 1)" using assms(1) by (rule pow2_double)
  from assms(2) True have "(k + 2 ^ (w - 1)) mod 2 ^ w - 2 ^ (w - 1) + 1 \<le> 2 ^ (w - 1) - (1 :: int)"
    unfolding readConstant_def maxFor_def by simp
  with W have "(k + 2 ^ (w - 1)) mod 2 ^ w + 1 < (2 :: int) ^ w" by linarith
  then have "(k + 2 ^ (w - 1) + 1) mod 2 ^ w = (k + 2 ^ (w - 1)) mod (2 :: int) ^ w + 1"
    by (intro mod_pow2_succ) simp_all
  moreover have "k + 1 + 2 ^ (w - 1) = k + 2 ^ (w - 1) + (1 :: int)" by simp
  ultimately have "(k + 1 + 2 ^ (w - 1)) mod 2 ^ w = (k + 2 ^ (w - 1)) mod (2 :: int) ^ w + 1"
    by (simp only:)
  then show ?thesis using True unfolding readConstant_def by simp
next
  case False
  from assms(2) False have "k mod 2 ^ w + 1 < (2 :: int) ^ w"
    unfolding readConstant_def maxFor_def by simp
  then have "(k + 1) mod 2 ^ w = k mod (2 :: int) ^ w + 1"
    by (intro mod_pow2_succ) simp_all
  then show ?thesis using False unfolding readConstant_def by simp
qed

lemma readConstant_pred:
  assumes "0 < w" "minFor s w \<le> readConstant s w k - 1"
  shows "readConstant s w (k - 1) = readConstant s w k - 1"
proof (cases s)
  case True
  from assms(2) True have "- (2 ^ (w - 1)) \<le> (k + 2 ^ (w - 1)) mod 2 ^ w - 2 ^ (w - 1) - (1 :: int)"
    unfolding readConstant_def minFor_def by simp
  then have "0 < (k + 2 ^ (w - 1)) mod (2 :: int) ^ w" by linarith
  then have "(k + 2 ^ (w - 1) - 1) mod 2 ^ w = (k + 2 ^ (w - 1)) mod (2 :: int) ^ w - 1"
    by (intro mod_pow2_pred) simp_all
  moreover have "k - 1 + 2 ^ (w - 1) = k + 2 ^ (w - 1) - (1 :: int)" by simp
  ultimately have "(k - 1 + 2 ^ (w - 1)) mod 2 ^ w = (k + 2 ^ (w - 1)) mod (2 :: int) ^ w - 1"
    by (simp only:)
  then show ?thesis using True unfolding readConstant_def by simp
next
  case False
  from assms(2) False have "0 < k mod (2 :: int) ^ w"
    unfolding readConstant_def minFor_def by simp
  then have "(k - 1) mod 2 ^ w = k mod (2 :: int) ^ w - 1"
    by (intro mod_pow2_pred) simp_all
  then show ?thesis using False unfolding readConstant_def by simp
qed

lemma range_fields [simp]:
  "smin (fromSigned a b) = a" "smax (fromSigned a b) = b"
  "umin (fromUnsigned a b) = a" "umax (fromUnsigned a b) = b"
  by (simp_all add: fromSigned_def fromUnsigned_def Let_def)

lemma bounds_of_range:
  "lowerBound s (ConstantIntRanges_range a b s) = (if s then getSExtValue a else getZExtValue a)"
  "upperBound s (ConstantIntRanges_range a b s) = (if s then getSExtValue b else getZExtValue b)"
  by (simp_all add: lowerBound_def upperBound_def ConstantIntRanges_range_def)

lemma bounds_of_constant:
  "lowerBound s (ConstantIntRanges_constant a) = (if s then getSExtValue a else getZExtValue a)"
  "upperBound s (ConstantIntRanges_constant a) = (if s then getSExtValue a else getZExtValue a)"
  by (simp_all add: lowerBound_def upperBound_def ConstantIntRanges_constant_def)

lemma read_extremes:
  assumes "0 < w"
  shows "getSExtValue (getSignedMinValue w) = minFor True w"
    and "getSExtValue (getSignedMaxValue w) = maxFor True w"
    and "getZExtValue (getMinValue w) = minFor False w"
    and "getZExtValue (getMaxValue w) = maxFor False w"
proof -
  have W: "(2 :: int) ^ w = 2 * 2 ^ (w - 1)" using assms by (rule pow2_double)
  show "getSExtValue (getSignedMinValue w) = minFor True w"
    unfolding getSExtValue_def isNegative_def getSignedMinValue_def minFor_def
    using W by simp
  show "getSExtValue (getSignedMaxValue w) = maxFor True w"
    unfolding getSExtValue_def isNegative_def getSignedMaxValue_def maxFor_def
    by simp
  show "getZExtValue (getMinValue w) = minFor False w"
    by (simp add: getZExtValue_def getMinValue_def minFor_def)
  show "getZExtValue (getMaxValue w) = maxFor False w"
    by (simp add: getZExtValue_def getMaxValue_def maxFor_def)
qed

lemma apVal_eq:
  assumes "w \<le> 64 \<or> (- (2 ^ 63) \<le> k \<and> k < 2 ^ 63 \<and> (s \<or> 0 \<le> k))"
  shows "mkAPInt w (to_uint64 k) s = \<lparr>BitWidth = w, VAL = k mod 2 ^ w\<rparr>"
  using VAL_mkAPInt [OF assms] by (simp add: mkAPInt_def)

lemma apVal_add:
  "APInt_add \<lparr>BitWidth = w, VAL = k mod 2 ^ w\<rparr> 1 = \<lparr>BitWidth = w, VAL = (k + 1) mod 2 ^ w\<rparr>"
  by (simp add: APInt_add_def mod_add_left_eq)

lemma apVal_sub:
  "APInt_sub \<lparr>BitWidth = w, VAL = k mod 2 ^ w\<rparr> 1 = \<lparr>BitWidth = w, VAL = (k - 1) mod 2 ^ w\<rparr>"
  by (simp add: APInt_sub_def mod_diff_left_eq)

lemma read_apVal:
  assumes "0 < w"
  shows "getSExtValue \<lparr>BitWidth = w, VAL = x mod 2 ^ w\<rparr> = readConstant True w x"
    and "getZExtValue \<lparr>BitWidth = w, VAL = x mod 2 ^ w\<rparr> = readConstant False w x"
  using readBound_mod [OF assms, of True x] readBound_mod [OF assms, of False x] by simp_all

text \<open>the result of the free function for a comparison with a constant operand\<close>
lemma maybeGetAssumedRange_constant:
  assumes "opKind assumption = ArithCmpIOp p lhs rhs ty"
    and "getConstantIntValue (if lhs = anchor then rhs else lhs) = Some k"
    and "w = getStorageBitwidth (getType anchor)" "0 < w"
    and "w \<le> 64 \<or> (- (2 ^ 63) \<le> k \<and> k < 2 ^ 63 \<and> (isSignedPredicate p \<or> 0 \<le> k))"
  shows "maybeGetAssumedRange assumption anchor =
    (let s = isSignedPredicate p;
         apVal = \<lparr>BitWidth = w, VAL = k mod 2 ^ w\<rparr>;
         mn = (if s then getSignedMinValue w else getMinValue w);
         mx = (if s then getSignedMaxValue w else getMaxValue w);
         up = \<lparr>BitWidth = w, VAL = (k + 1) mod 2 ^ w\<rparr>;
         dn = \<lparr>BitWidth = w, VAL = (k - 1) mod 2 ^ w\<rparr>
     in if p = pred_ne then Inr ([''unsupported cmp predicate for assumption''], None)
        else Inr ([], Some (
          if p = pred_eq then ConstantIntRanges_constant apVal
          else if p \<in> {pred_sge, pred_uge} then
            (if lhs = anchor then ConstantIntRanges_range apVal mx s else ConstantIntRanges_range mn apVal s)
          else if p \<in> {pred_sgt, pred_ugt} then
            (if lhs = anchor then ConstantIntRanges_range up mx s else ConstantIntRanges_range mn dn s)
          else if p \<in> {pred_sle, pred_ule} then
            (if lhs = anchor then ConstantIntRanges_range mn apVal s else ConstantIntRanges_range apVal mx s)
          else
            (if lhs = anchor then ConstantIntRanges_range mn dn s else ConstantIntRanges_range up mx s))))"
proof -
  have ap: "mkAPInt w (to_uint64 k) (isSignedPredicate p) = \<lparr>BitWidth = w, VAL = k mod 2 ^ w\<rparr>"
    using assms(5) by (rule apVal_eq)
  have sp: "isSignedPredicate p = (case p of pred_uge \<Rightarrow> False | pred_ugt \<Rightarrow> False
                           | pred_ule \<Rightarrow> False | pred_ult \<Rightarrow> False | _ \<Rightarrow> True)"
    by (cases p) (simp_all add: isSignedPredicate_def)
  show ?thesis
    unfolding maybeGetAssumedRange_def assms(1) OpKind.case Let_def sp [symmetric] assms(2) option.case
      assms(3) [symmetric] ap apVal_add apVal_sub
    using assms(4) by (cases p) (simp_all add: isSignedPredicate_def)
qed

lemma readConstant_succ_wrap:
  assumes "0 < w" "readConstant s w k = maxFor s w"
  shows "readConstant s w (k + 1) = minFor s w"
proof -
  have W: "(2 :: int) ^ w = 2 * 2 ^ (w - 1)" using assms(1) by (rule pow2_double)
  have wrap: "(y + 1) mod 2 ^ w = 0" if "y mod 2 ^ w = (2 :: int) ^ w - 1" for y
  proof -
    have "(y + 1) mod 2 ^ w = (y mod 2 ^ w + 1) mod (2 :: int) ^ w" by (rule mod_add_left_eq [symmetric])
    then show ?thesis using that by simp
  qed
  show ?thesis
  proof (cases s)
    case True
    from assms(2) True have "(k + 2 ^ (w - 1)) mod 2 ^ w - 2 ^ (w - 1) = 2 ^ (w - 1) - (1 :: int)"
      unfolding readConstant_def maxFor_def by simp
    with W have "(k + 2 ^ (w - 1)) mod 2 ^ w = (2 :: int) ^ w - 1" by linarith
    then have "(k + 2 ^ (w - 1) + 1) mod (2 :: int) ^ w = 0" by (rule wrap)
    moreover have "k + 1 + 2 ^ (w - 1) = k + 2 ^ (w - 1) + (1 :: int)" by simp
    ultimately have "(k + 1 + 2 ^ (w - 1)) mod (2 :: int) ^ w = 0" by (simp only:)
    then show ?thesis using True unfolding readConstant_def minFor_def by simp
  next
    case False
    from assms(2) False have "k mod 2 ^ w = (2 :: int) ^ w - 1"
      unfolding readConstant_def maxFor_def by simp
    then have "(k + 1) mod (2 :: int) ^ w = 0" by (rule wrap)
    then show ?thesis using False unfolding readConstant_def minFor_def by simp
  qed
qed

lemma readConstant_pred_wrap:
  assumes "0 < w" "readConstant s w k = minFor s w"
  shows "readConstant s w (k - 1) = maxFor s w"
proof -
  have W: "(2 :: int) ^ w = 2 * 2 ^ (w - 1)" using assms(1) by (rule pow2_double)
  have wrap: "(y - 1) mod 2 ^ w = 2 ^ w - 1" if "y mod 2 ^ w = (0 :: int)" for y
  proof -
    have "(y - 1) mod 2 ^ w = (y mod 2 ^ w - 1) mod (2 :: int) ^ w" by (rule mod_diff_left_eq [symmetric])
    also have "\<dots> = (- 1) mod (2 :: int) ^ w" using that by simp
    also have "\<dots> = (2 ^ w - 1) mod (2 :: int) ^ w"
      by (metis minus_mod_self2 mod_diff_left_eq diff_0 mod_self)
    also have "\<dots> = 2 ^ w - 1" by (intro mod_pos_pos_trivial) simp_all
    finally show ?thesis .
  qed
  show ?thesis
  proof (cases s)
    case True
    from assms(2) True have "(k + 2 ^ (w - 1)) mod 2 ^ w - 2 ^ (w - 1) = - (2 ^ (w - 1) :: int)"
      unfolding readConstant_def minFor_def by simp
    then have "(k + 2 ^ (w - 1)) mod 2 ^ w = (0 :: int)" by linarith
    then have "(k + 2 ^ (w - 1) - 1) mod (2 :: int) ^ w = 2 ^ w - 1" by (rule wrap)
    moreover have "k - 1 + 2 ^ (w - 1) = k + 2 ^ (w - 1) - (1 :: int)" by simp
    ultimately have "(k - 1 + 2 ^ (w - 1)) mod (2 :: int) ^ w = 2 ^ w - 1" by (simp only:)
    then show ?thesis using True W unfolding readConstant_def maxFor_def by simp
  next
    case False
    from assms(2) False have "k mod 2 ^ w = (0 :: int)"
      unfolding readConstant_def minFor_def by simp
    then have "(k - 1) mod (2 :: int) ^ w = 2 ^ w - 1" by (rule wrap)
    then show ?thesis using False unfolding readConstant_def maxFor_def by simp
  qed
qed

lemma readConstant_succ_cases:
  assumes "0 < w"
  shows "readConstant s w (k + 1) =
     (if readConstant s w k = maxFor s w then minFor s w else readConstant s w k + 1)"
proof (cases "readConstant s w k = maxFor s w")
  case True
  then show ?thesis using readConstant_succ_wrap [OF assms] by simp
next
  case False
  with readConstant_range(2) [OF assms, of s k] have "readConstant s w k + 1 \<le> maxFor s w" by linarith
  with False show ?thesis using readConstant_succ [OF assms] by simp
qed

lemma readConstant_pred_cases:
  assumes "0 < w"
  shows "readConstant s w (k - 1) =
     (if readConstant s w k = minFor s w then maxFor s w else readConstant s w k - 1)"
proof (cases "readConstant s w k = minFor s w")
  case True
  then show ?thesis using readConstant_pred_wrap [OF assms] by simp
next
  case False
  with readConstant_range(1) [OF assms, of s k] have "minFor s w \<le> readConstant s w k - 1" by linarith
  with False show ?thesis using readConstant_pred [OF assms] by simp
qed

lemma ex_width: "8 = getStorageBitwidth (getType (ex_i8 n))"
  by (simp add: ex_i8_def getStorageBitwidth_def)

lemma ex_opKind: "opKind (ex_cmp n p l r) = ArithCmpIOp p l r (IntegerType 1)"
  by (simp add: ex_cmp_def)

lemma ex_constants:
  "getConstantIntValue (ex_const n k) = Some k" "getConstantIntValue (ex_i8 n) = None"
  "ex_const n k \<noteq> ex_i8 m" "(ex_i8 n = ex_i8 m) = (n = m)"
  by (simp_all add: ex_const_def ex_i8_def getConstantIntValue_def)

subsection \<open>The range derived from one assumption\<close>

text \<open>
  C8.  For an assumption \<open>P(lhs, rhs)\<close> on an anchor of non-zero width \<open>w\<close>, with a constant
  on the other side whose \<open>int64_t\<close> value is \<open>c\<close>, where \<open>w\<close> is at most 64 or \<open>c\<close> lies
  within \<open>int64_t\<close> and is compared by a signed predicate or is not negative: the free
  function \<open>maybeGetAssumedRange\<close> returns the range of the specification's table, read
  in the signedness of the predicate (signed for \<open>eq\<close>), where \<open>k\<close> is the number that
  \<open>c\<close> denotes at width \<open>w\<close> in that signedness, provided both bounds of the table's
  entry lie between the extremes \<open>min\<close> and \<open>max\<close> of the width.  With no constant on the
  other side no range is derived.
\<close>

theorem maybeGetAssumedRange_table:
  assumes "opKind assumption = ArithCmpIOp p lhs rhs ty"
    and "w = getStorageBitwidth (getType anchor)" "0 < w"
    and "s = isSignedPredicate p"
  shows "(getConstantIntValue (if lhs = anchor then rhs else lhs) = None \<longrightarrow>
            maybeGetAssumedRange assumption anchor = Inr ([], None))
       \<and> (\<forall>k lo hi.
            getConstantIntValue (if lhs = anchor then rhs else lhs) = Some k
            \<and> (w \<le> 64 \<or> (- (2 ^ 63) \<le> k \<and> k < 2 ^ 63 \<and> (s \<or> 0 \<le> k)))
            \<and> tableRange p (lhs = anchor) (readConstant s w k) (minFor s w) (maxFor s w) = Some (lo, hi)
            \<and> minFor s w \<le> lo \<and> lo \<le> maxFor s w \<and> minFor s w \<le> hi \<and> hi \<le> maxFor s w
            \<longrightarrow> (\<exists>r. maybeGetAssumedRange assumption anchor = Inr ([], Some r)
                     \<and> lowerBound s r = lo \<and> upperBound s r = hi))"
proof (intro conjI allI impI)
  assume "getConstantIntValue (if lhs = anchor then rhs else lhs) = None"
  then show "maybeGetAssumedRange assumption anchor = Inr ([], None)"
    unfolding maybeGetAssumedRange_def assms(1) by (simp add: Let_def)
next
  fix k lo hi
  assume H: "getConstantIntValue (if lhs = anchor then rhs else lhs) = Some k
            \<and> (w \<le> 64 \<or> (- (2 ^ 63) \<le> k \<and> k < 2 ^ 63 \<and> (s \<or> 0 \<le> k)))
            \<and> tableRange p (lhs = anchor) (readConstant s w k) (minFor s w) (maxFor s w) = Some (lo, hi)
            \<and> minFor s w \<le> lo \<and> lo \<le> maxFor s w \<and> minFor s w \<le> hi \<and> hi \<le> maxFor s w"
  then have k: "getConstantIntValue (if lhs = anchor then rhs else lhs) = Some k"
    and fit: "w \<le> 64 \<or> (- (2 ^ 63) \<le> k \<and> k < 2 ^ 63 \<and> (isSignedPredicate p \<or> 0 \<le> k))"
    and tab: "tableRange p (lhs = anchor) (readConstant s w k) (minFor s w) (maxFor s w) = Some (lo, hi)"
    and lo: "minFor s w \<le> lo" "lo \<le> maxFor s w" and hi: "minFor s w \<le> hi" "hi \<le> maxFor s w"
    using assms(4) by simp_all
  note cf = maybeGetAssumedRange_constant [OF assms(1) k assms(2) assms(3) fit, folded assms(4)]
  have rd: "(if s then getSExtValue \<lparr>BitWidth = w, VAL = x mod 2 ^ w\<rparr>
             else getZExtValue \<lparr>BitWidth = w, VAL = x mod 2 ^ w\<rparr>) = readConstant s w x" for x
    using assms(3) by (rule readBound_mod)
  have mn: "(if s then getSExtValue (if s then getSignedMinValue w else getMinValue w)
             else getZExtValue (if s then getSignedMinValue w else getMinValue w)) = minFor s w"
    using read_extremes [OF assms(3)] by simp
  have mx: "(if s then getSExtValue (if s then getSignedMaxValue w else getMaxValue w)
             else getZExtValue (if s then getSignedMaxValue w else getMaxValue w)) = maxFor s w"
    using read_extremes [OF assms(3)] by simp
  have up: "readConstant s w (k + 1) = readConstant s w k + 1" if "readConstant s w k + 1 \<le> maxFor s w"
    using assms(3) that by (rule readConstant_succ)
  have dn: "readConstant s w (k - 1) = readConstant s w k - 1" if "minFor s w \<le> readConstant s w k - 1"
    using assms(3) that by (rule readConstant_pred)
  from tab have ne: "p \<noteq> pred_ne" by (auto simp: tableRange_def)
  consider (eq) "p = pred_eq" | (ge) "p \<in> {pred_sge, pred_uge}" | (gt) "p \<in> {pred_sgt, pred_ugt}"
    | (le) "p \<in> {pred_sle, pred_ule}" | (lt) "p \<in> {pred_slt, pred_ult}"
    using ne by (cases p) simp_all
  then show "\<exists>r. maybeGetAssumedRange assumption anchor = Inr ([], Some r)
                     \<and> lowerBound s r = lo \<and> upperBound s r = hi"
  proof cases
    case eq
    with tab have "lo = readConstant s w k" "hi = readConstant s w k" by (simp_all add: tableRange_def)
    with eq show ?thesis unfolding cf Let_def by (simp add: bounds_of_constant rd)
  next
    case ge
    with tab have "(lo, hi) = (if lhs = anchor then (readConstant s w k, maxFor s w) else (minFor s w, readConstant s w k))"
      by (auto simp: tableRange_def)
    with ge show ?thesis unfolding cf Let_def
      by (cases "lhs = anchor") (auto simp: bounds_of_range rd mn mx)
  next
    case le
    with tab have "(lo, hi) = (if lhs = anchor then (minFor s w, readConstant s w k) else (readConstant s w k, maxFor s w))"
      by (auto simp: tableRange_def)
    with le show ?thesis unfolding cf Let_def
      by (cases "lhs = anchor") (auto simp: bounds_of_range rd mn mx)
  next
    case gt
    with tab have t: "(lo, hi) = (if lhs = anchor then (readConstant s w k + 1, maxFor s w) else (minFor s w, readConstant s w k - 1))"
      by (auto simp: tableRange_def)
    show ?thesis
    proof (cases "lhs = anchor")
      case True
      with t lo hi have "readConstant s w k + 1 \<le> maxFor s w"
        using readConstant_range [OF assms(3), of s k] by auto
      from up [OF this] gt True t show ?thesis unfolding cf Let_def
        by (auto simp: bounds_of_range rd mn mx)
    next
      case False
      with t lo hi have "minFor s w \<le> readConstant s w k - 1"
        using readConstant_range [OF assms(3), of s k] by auto
      from dn [OF this] gt False t show ?thesis unfolding cf Let_def
        by (auto simp: bounds_of_range rd mn mx)
    qed
  next
    case lt
    with tab have t: "(lo, hi) = (if lhs = anchor then (minFor s w, readConstant s w k - 1) else (readConstant s w k + 1, maxFor s w))"
      by (auto simp: tableRange_def)
    show ?thesis
    proof (cases "lhs = anchor")
      case False
      with t lo hi have "readConstant s w k + 1 \<le> maxFor s w"
        using readConstant_range [OF assms(3), of s k] by auto
      from up [OF this] lt False t show ?thesis unfolding cf Let_def
        by (auto simp: bounds_of_range rd mn mx)
    next
      case True
      with t lo hi have "minFor s w \<le> readConstant s w k - 1"
        using readConstant_range [OF assms(3), of s k] by auto
      from dn [OF this] lt True t show ?thesis unfolding cf Let_def
        by (auto simp: bounds_of_range rd mn mx)
    qed
  qed
qed

text \<open>The theorem at \<open>x > 5\<close> and at \<open>x > y\<close> for \<open>i8\<close> values.\<close>

theorem maybeGetAssumedRange_table_witness:
  "(getConstantIntValue (ex_i8 1) = None
    \<and> maybeGetAssumedRange (ex_cmp 20 pred_sgt (ex_i8 0) (ex_i8 1)) (ex_i8 0) = Inr ([], None))
   \<and> (getConstantIntValue (ex_const 1 5) = Some 5
      \<and> tableRange pred_sgt True (readConstant True 8 5) (minFor True 8) (maxFor True 8) = Some (6, 127)
      \<and> (\<exists>r. maybeGetAssumedRange (ex_cmp 20 pred_sgt (ex_i8 0) (ex_const 1 5)) (ex_i8 0) = Inr ([], Some r)
             \<and> lowerBound True r = 6 \<and> upperBound True r = 127))"
proof -
  have s: "True = isSignedPredicate pred_sgt" by (simp add: isSignedPredicate_def)
  have rc: "readConstant True 8 5 = 5" "minFor True 8 = - 128" "maxFor True 8 = 127"
    by (simp_all add: readConstant_def minFor_def maxFor_def)
  have tab: "tableRange pred_sgt True (readConstant True 8 5) (minFor True 8) (maxFor True 8) = Some (6, 127)"
    by (simp add: rc tableRange_def)
  have pos: "0 < (8::nat)" by simp
  from maybeGetAssumedRange_table [where assumption = "ex_cmp 20 pred_sgt (ex_i8 0) (ex_i8 1)"
      and anchor = "ex_i8 0" and w = 8 and s = True, OF ex_opKind ex_width pos s, THEN conjunct1]
  have none: "maybeGetAssumedRange (ex_cmp 20 pred_sgt (ex_i8 0) (ex_i8 1)) (ex_i8 0) = Inr ([], None)"
    by (simp add: ex_constants)
  from maybeGetAssumedRange_table [where assumption = "ex_cmp 20 pred_sgt (ex_i8 0) (ex_const 1 5)"
      and anchor = "ex_i8 0" and w = 8 and s = True, OF ex_opKind ex_width pos s, THEN conjunct2,
      rule_format, of 5 6 127] tab
  have "\<exists>r. maybeGetAssumedRange (ex_cmp 20 pred_sgt (ex_i8 0) (ex_const 1 5)) (ex_i8 0) = Inr ([], Some r)
             \<and> lowerBound True r = 6 \<and> upperBound True r = 127"
    by (simp add: ex_constants rc)
  with none tab show ?thesis by (simp add: ex_constants)
qed

text \<open>
  Without the proviso the table fails: for \<open>x <\<^sub>u 0\<close> the table's entry is \<open>[0, -1]\<close>
  and the function returns the whole range \<open>[0, 255]\<close>.
\<close>

theorem table_counterexample:
  "maybeGetAssumedRange (ex_cmp 20 pred_ult (ex_i8 0) (ex_const 1 0)) (ex_i8 0)
     = Inr ([], Some (maxRange 8))
   \<and> (lowerBound False (maxRange 8), upperBound False (maxRange 8)) = (0, 255)
   \<and> tableRange pred_ult True 0 0 255 = Some (0, - 1)"
  by code_simp

text \<open>
  C6.  For a strict predicate on an anchor of non-zero width \<open>w\<close>, with a constant on the
  other side whose \<open>int64_t\<close> value is \<open>c\<close>, where \<open>w\<close> is at most 64 or \<open>c\<close> lies within
  \<open>int64_t\<close> and is compared by a signed predicate or is not negative: the bound
  \<open>apVal + 1\<close> (\<open>apVal - 1\<close>) is computed at the anchor's width and wraps around.  With
  \<open>k\<close> the number that \<open>c\<close> denotes at width \<open>w\<close> in the predicate's signedness, the bound
  is \<open>k + 1\<close> (\<open>k - 1\<close>) unless \<open>k\<close> is the largest (smallest) value of the width; then
  the bound is the smallest (largest) value, and the derived range is the whole range.
\<close>

theorem strict_bound_wraps:
  assumes "opKind assumption = ArithCmpIOp p lhs rhs ty"
    and "w = getStorageBitwidth (getType anchor)" "0 < w"
    and "s = isSignedPredicate p"
    and "getConstantIntValue (if lhs = anchor then rhs else lhs) = Some k"
    and "w \<le> 64 \<or> (- (2 ^ 63) \<le> k \<and> k < 2 ^ 63 \<and> (s \<or> 0 \<le> k))"
    and "p \<in> {pred_sgt, pred_ugt, pred_slt, pred_ult}"
  shows "\<exists>r. maybeGetAssumedRange assumption anchor = Inr ([], Some r)
           \<and> (if (p \<in> {pred_sgt, pred_ugt}) = (lhs = anchor)
              then lowerBound s r = (if readConstant s w k = maxFor s w then minFor s w
                                     else readConstant s w k + 1)
                   \<and> upperBound s r = maxFor s w
              else lowerBound s r = minFor s w
                   \<and> upperBound s r = (if readConstant s w k = minFor s w then maxFor s w
                                        else readConstant s w k - 1))"
proof -
  have fit: "w \<le> 64 \<or> (- (2 ^ 63) \<le> k \<and> k < 2 ^ 63 \<and> (isSignedPredicate p \<or> 0 \<le> k))"
    using assms(4,6) by simp
  note cf = maybeGetAssumedRange_constant [OF assms(1) assms(5) assms(2) assms(3) fit, folded assms(4)]
  have rd: "(if s then getSExtValue \<lparr>BitWidth = w, VAL = x mod 2 ^ w\<rparr>
             else getZExtValue \<lparr>BitWidth = w, VAL = x mod 2 ^ w\<rparr>) = readConstant s w x" for x
    using assms(3) by (rule readBound_mod)
  have mn: "(if s then getSExtValue (if s then getSignedMinValue w else getMinValue w)
             else getZExtValue (if s then getSignedMinValue w else getMinValue w)) = minFor s w"
    using read_extremes [OF assms(3)] by simp
  have mx: "(if s then getSExtValue (if s then getSignedMaxValue w else getMaxValue w)
             else getZExtValue (if s then getSignedMaxValue w else getMaxValue w)) = maxFor s w"
    using read_extremes [OF assms(3)] by simp
  note up = readConstant_succ_cases [OF assms(3), of s k]
  note dn = readConstant_pred_cases [OF assms(3), of s k]
  consider (gt) "p \<in> {pred_sgt, pred_ugt}" | (lt) "p \<in> {pred_slt, pred_ult}"
    using assms(7) by blast
  then show ?thesis
  proof cases
    case gt
    then show ?thesis unfolding cf Let_def
      by (cases "lhs = anchor") (auto simp: bounds_of_range rd mn mx up dn)
  next
    case lt
    then show ?thesis unfolding cf Let_def
      by (cases "lhs = anchor") (auto simp: bounds_of_range rd mn mx up dn)
  qed
qed

text \<open>The theorem at \<open>x > 127\<close> for a value of type \<open>i8\<close>.\<close>

theorem strict_bound_wraps_witness:
  "getConstantIntValue (ex_const 1 127) = Some 127
   \<and> readConstant True 8 127 = maxFor True 8
   \<and> (\<exists>r. maybeGetAssumedRange (ex_cmp 20 pred_sgt (ex_i8 0) (ex_const 1 127)) (ex_i8 0) = Inr ([], Some r)
          \<and> lowerBound True r = minFor True 8 \<and> upperBound True r = maxFor True 8)"
proof -
  have s: "True = isSignedPredicate pred_sgt" by (simp add: isSignedPredicate_def)
  have rc: "readConstant True 8 127 = 127" "minFor True 8 = - 128" "maxFor True 8 = 127"
    by (simp_all add: readConstant_def minFor_def maxFor_def)
  have k: "getConstantIntValue (if ex_i8 0 = ex_i8 0 then ex_const 1 127 else ex_i8 0) = Some 127"
    by (simp add: ex_constants)
  have fit: "(8::nat) \<le> 64 \<or> (- (2 ^ 63) \<le> (127::int) \<and> (127::int) < 2 ^ 63 \<and> (True \<or> 0 \<le> (127::int)))"
    by simp
  have p: "pred_sgt \<in> {pred_sgt, pred_ugt, pred_slt, pred_ult}" by simp
  from strict_bound_wraps [where assumption = "ex_cmp 20 pred_sgt (ex_i8 0) (ex_const 1 127)"
      and anchor = "ex_i8 0" and w = 8 and s = True, OF ex_opKind ex_width _ s k fit p]
  have "\<exists>r. maybeGetAssumedRange (ex_cmp 20 pred_sgt (ex_i8 0) (ex_const 1 127)) (ex_i8 0) = Inr ([], Some r)
          \<and> lowerBound True r = minFor True 8 \<and> upperBound True r = maxFor True 8"
    by (simp add: rc ex_constants)
  then
  show ?thesis by (simp add: rc ex_constants)
qed

text \<open>
  For \<open>x > 127\<close> at type \<open>i8\<close> the lower bound is \<open>-128\<close>, not \<open>128\<close>.
\<close>

theorem strict_bound_wraps_counterexample:
  "maybeGetAssumedRange (ex_cmp 20 pred_sgt (ex_i8 0) (ex_const 1 127)) (ex_i8 0)
     = Inr ([], Some \<lparr>umin = \<lparr>BitWidth = 8, VAL = 0\<rparr>, umax = \<lparr>BitWidth = 8, VAL = 255\<rparr>,
                      smin = \<lparr>BitWidth = 8, VAL = 128\<rparr>, smax = \<lparr>BitWidth = 8, VAL = 127\<rparr>\<rparr>)
   \<and> getSExtValue \<lparr>BitWidth = 8, VAL = 128\<rparr> = - 128
   \<and> getSExtValue \<lparr>BitWidth = 8, VAL = 128\<rparr> \<noteq> 127 + 1"
  by code_simp

subsection \<open>Combining the assumptions on one anchor\<close>

lemma intersection_contains:
  assumes "BitWidth (umin a) \<noteq> 0" "BitWidth (umin b) \<noteq> 0"
  shows "rangeContains (intersection a b) v = (rangeContains a v \<and> rangeContains b v)"
  using assms unfolding rangeContains_def intersection_def ule_def ult_def ugt_def sle_def slt_def sgt_def
  by auto

lemma intersection_width:
  assumes "BitWidth (umin a) = w" "BitWidth (umin b) = w"
  shows "BitWidth (umin (intersection a b)) = w"
  using assms unfolding intersection_def by simp

lemma fromSigned_width:
  "BitWidth a = w \<Longrightarrow> BitWidth b = w \<Longrightarrow> BitWidth (umin (fromSigned a b)) = w"
  by (simp add: fromSigned_def Let_def getMinValue_def)

lemma fromUnsigned_width:
  "BitWidth a = w \<Longrightarrow> BitWidth (umin (fromUnsigned a b)) = w"
  by (simp add: fromUnsigned_def Let_def)

lemma range_width:
  "BitWidth a = w \<Longrightarrow> BitWidth b = w \<Longrightarrow> BitWidth (umin (ConstantIntRanges_range a b s)) = w"
  by (simp add: ConstantIntRanges_range_def fromSigned_width fromUnsigned_width)

lemma maxRange_width: "BitWidth (umin (maxRange w)) = w"
  by (simp add: maxRange_def fromUnsigned_width getZero_def)

lemma APInt_widths [simp]:
  "BitWidth (mkAPInt w v s) = w" "BitWidth (APInt_add a x) = BitWidth a" "BitWidth (APInt_sub a x) = BitWidth a"
  "BitWidth (getSignedMinValue w) = w" "BitWidth (getSignedMaxValue w) = w"
  "BitWidth (getMinValue w) = w" "BitWidth (getMaxValue w) = w"
  by (simp_all add: mkAPInt_def APInt_add_def APInt_sub_def getSignedMinValue_def getSignedMaxValue_def
      getMinValue_def getMaxValue_def)

lemma maybeGetAssumedRange_total:
  assumes "0 < getStorageBitwidth (getType anchor)"
  shows "\<exists>rs r. maybeGetAssumedRange assumption anchor = Inr (rs, r)
           \<and> (\<forall>r'. r = Some r' \<longrightarrow> BitWidth (umin r') = getStorageBitwidth (getType anchor))"
proof (cases "opKind assumption")
  case (ArithCmpIOp p lhs rhs ty)
  show ?thesis
  proof (cases "getConstantIntValue (if lhs = anchor then rhs else lhs)")
    case None
    then show ?thesis unfolding maybeGetAssumedRange_def ArithCmpIOp by (simp add: Let_def)
  next
    case (Some k)
    then show ?thesis using assms unfolding maybeGetAssumedRange_def ArithCmpIOp
      by (cases p) (simp_all add: Let_def range_width ConstantIntRanges_constant_def)
  qed
qed (simp_all add: maybeGetAssumedRange_def)

lemma intersectAssumptions_fold:
  assumes "0 < getStorageBitwidth (getType anchor)"
  shows "\<exists>rs. intersectAssumptions ops anchor (remarks, acc)
           = Inr (rs, foldl intersection acc (derivedRanges ops anchor))"
proof (induction ops arbitrary: remarks acc)
  case Nil
  show ?case by (simp add: derivedRanges_def)
next
  case (Cons a ops)
  from maybeGetAssumedRange_total [OF assms, of a]
  obtain rs r where a: "maybeGetAssumedRange a anchor = Inr (rs, r)" by blast
  show ?case
  proof (cases r)
    case None
    with a Cons.IH [of "remarks @ rs" acc] show ?thesis by (simp add: derivedRanges_def)
  next
    case (Some r')
    with a Cons.IH [of "remarks @ rs" "intersection acc r'"] show ?thesis by (simp add: derivedRanges_def)
  qed
qed

lemma derivedRanges_width:
  assumes "0 < getStorageBitwidth (getType anchor)" "r \<in> set (derivedRanges ops anchor)"
  shows "BitWidth (umin r) = getStorageBitwidth (getType anchor)"
proof -
  from assms(2) obtain a rs where "maybeGetAssumedRange a anchor = Inr (rs, Some r)"
    by (auto simp: derivedRanges_def split: sum.splits option.splits) metis
  with maybeGetAssumedRange_total [OF assms(1), of a] show ?thesis by auto
qed

lemma foldl_intersection_contains:
  assumes "0 < w" "BitWidth (umin acc) = w" "\<forall>r \<in> set rs. BitWidth (umin r) = w"
  shows "BitWidth (umin (foldl intersection acc rs)) = w
       \<and> rangeContains (foldl intersection acc rs) v
           = (rangeContains acc v \<and> (\<forall>r \<in> set rs. rangeContains r v))"
  using assms(2,3)
proof (induction rs arbitrary: acc)
  case Nil
  then show ?case by simp
next
  case (Cons r rs)
  have w: "BitWidth (umin (intersection acc r)) = w"
    using Cons.prems by (simp add: intersection_width)
  have c: "rangeContains (intersection acc r) v = (rangeContains acc v \<and> rangeContains r v)"
    using Cons.prems assms(1) by (intro intersection_contains) simp_all
  from Cons.IH [OF w] Cons.prems(2) c show ?case by auto
qed

text \<open>
  C3.  When assumptions are registered against an anchor of non-zero width, the member
  function \<open>maybeGetAssumedRange\<close> does not fail and returns the repeated intersection,
  starting from max-range, of the ranges derived from the assumptions: a value lies in the
  returned range exactly when it lies in max-range and in every derived range.  The
  intersection is returned as it is, also when it is empty.
\<close>

theorem assumed_range_is_intersection:
  assumes "lookup registered anchor \<noteq> []"
    and "w = getStorageBitwidth (getType anchor)" "0 < w"
  shows "\<exists>remarks r.
           maybeGetAssumedRangeOfAnchor registered anchor = Inr (remarks, Some r)
           \<and> r = foldl intersection (maxRange w) (derivedRanges (lookup registered anchor) anchor)
           \<and> (\<forall>v. rangeContains r v =
                  (rangeContains (maxRange w) v
                   \<and> (\<forall>r' \<in> set (derivedRanges (lookup registered anchor) anchor). rangeContains r' v)))"
proof -
  have pos: "0 < getStorageBitwidth (getType anchor)" using assms(2,3) by simp
  from intersectAssumptions_fold [OF pos, of "lookup registered anchor" "[]" "maxRange w"]
  obtain rs where loop: "intersectAssumptions (lookup registered anchor) anchor ([], maxRange w)
     = Inr (rs, foldl intersection (maxRange w) (derivedRanges (lookup registered anchor) anchor))"
    by blast
  have res: "maybeGetAssumedRangeOfAnchor registered anchor
     = Inr (rs, Some (foldl intersection (maxRange w) (derivedRanges (lookup registered anchor) anchor)))"
    unfolding maybeGetAssumedRangeOfAnchor_def Let_def
    using assms(1) pos loop by (simp add: assms(2))
  have widths: "\<forall>r \<in> set (derivedRanges (lookup registered anchor) anchor). BitWidth (umin r) = w"
    using derivedRanges_width [OF pos] assms(2) by blast
  from foldl_intersection_contains [OF assms(3) maxRange_width widths] res
  show ?thesis by blast
qed

text \<open>The theorem at the assumptions \<open>x \<ge> 5\<close> and \<open>x \<le> 100\<close> on a value of type \<open>i8\<close>.\<close>

theorem assumed_range_is_intersection_witness:
  "lookup ex_assumptions (ex_i8 0) \<noteq> []
   \<and> derivedRanges (lookup ex_assumptions (ex_i8 0)) (ex_i8 0)
       = [ConstantIntRanges_range (mkAPInt 8 5 True) (getSignedMaxValue 8) True,
          ConstantIntRanges_range (getSignedMinValue 8) (mkAPInt 8 100 True) True]
   \<and> (\<exists>remarks r.
         maybeGetAssumedRangeOfAnchor ex_assumptions (ex_i8 0) = Inr (remarks, Some r)
         \<and> (\<forall>v. rangeContains r v =
                (rangeContains (maxRange 8) v
                 \<and> rangeContains (ConstantIntRanges_range (mkAPInt 8 5 True) (getSignedMaxValue 8) True) v
                 \<and> rangeContains (ConstantIntRanges_range (getSignedMinValue 8) (mkAPInt 8 100 True) True) v)))"
proof -
  have ne: "lookup ex_assumptions (ex_i8 0) \<noteq> []"
    by (simp add: ex_assumptions_def lookup_def)
  have dr: "derivedRanges (lookup ex_assumptions (ex_i8 0)) (ex_i8 0)
       = [ConstantIntRanges_range (mkAPInt 8 5 True) (getSignedMaxValue 8) True,
          ConstantIntRanges_range (getSignedMinValue 8) (mkAPInt 8 100 True) True]"
    by code_simp
  have pos: "0 < (8::nat)" by simp
  from assumed_range_is_intersection [OF ne ex_width pos]
  show ?thesis unfolding dr using ne by auto
qed

text \<open>
  For the contradictory assumptions \<open>x \<ge> 5\<close> and \<open>x \<le> 3\<close> the returned range has the
  signed bounds \<open>[5, 3]\<close>; it is not max-range.
\<close>

theorem contradictory_assumptions_counterexample:
  "maybeGetAssumedRangeOfAnchor
     [ex_i8 0 \<mapsto> [ex_cmp 20 pred_sge (ex_i8 0) (ex_const 1 5), ex_cmp 21 pred_sle (ex_i8 0) (ex_const 2 3)]]
     (ex_i8 0)
   = Inr ([], Some \<lparr>umin = \<lparr>BitWidth = 8, VAL = 5\<rparr>, umax = \<lparr>BitWidth = 8, VAL = 127\<rparr>,
                    smin = \<lparr>BitWidth = 8, VAL = 5\<rparr>, smax = \<lparr>BitWidth = 8, VAL = 3\<rparr>\<rparr>)
   \<and> \<lparr>umin = \<lparr>BitWidth = 8, VAL = 5\<rparr>, umax = \<lparr>BitWidth = 8, VAL = 127\<rparr>,
       smin = \<lparr>BitWidth = 8, VAL = 5\<rparr>, smax = \<lparr>BitWidth = 8, VAL = 3\<rparr>\<rparr> \<noteq> maxRange 8"
  by code_simp

subsection \<open>The trip count of one loop\<close>

lemma divideCeilSigned_pos:
  assumes "0 \<le> n" "0 < d"
  shows "divideCeilSigned n d = \<lceil>real_of_int n / real_of_int d\<rceil>"
proof (cases "n = 0")
  case True
  then show ?thesis by (simp add: divideCeilSigned_def)
next
  case False
  with assms have n: "0 < n" by simp
  have "(n - 1) sdiv d = (n - 1) div d"
    using n assms(2) by (simp add: signed_divide_int_def sgn_if)
  moreover have "(n - 1) div d + 1 = - ((- n) div d)"
  proof -
    have "- n = d * (- 1 - (n - 1) div d) + (d - 1 - (n - 1) mod d)"
      by (simp add: algebra_simps)
    moreover have "0 \<le> d - 1 - (n - 1) mod d" "d - 1 - (n - 1) mod d < d"
      using assms(2) pos_mod_bound [of d "n - 1"] pos_mod_sign [of d "n - 1"] by linarith+
    ultimately have "(- n) div d = - 1 - (n - 1) div d"
      by (rule int_div_pos_eq)
    then show ?thesis by simp
  qed
  ultimately show ?thesis using n assms(2)
    by (simp add: divideCeilSigned_def Let_def ceiling_divide_eq_div)
qed

lemma to_int64_id:
  assumes "- (2 ^ 63) \<le> x" "x < 2 ^ 63"
  shows "to_int64 x = x"
proof -
  have "(x + 2 ^ 63) mod 2 ^ 64 = x + 2 ^ 63"
    using assms by (intro mod_pos_pos_trivial) simp_all
  then show ?thesis by (simp add: to_int64_def)
qed

lemma wellFormed_sign:
  assumes "wellFormed a"
  shows "isNegative a = (getSExtValue a < 0)" and "isZero a = (getSExtValue a = 0)"
proof -
  have W: "(2 :: int) ^ BitWidth a = 2 * 2 ^ (BitWidth a - 1)"
    using assms by (intro pow2_double) (simp add: wellFormed_def)
  have b: "0 \<le> VAL a" "VAL a < 2 ^ BitWidth a" using assms by (simp_all add: wellFormed_def)
  have h: "0 < (2 :: int) ^ (BitWidth a - 1)" by simp
  show "isNegative a = (getSExtValue a < 0)"
    unfolding getSExtValue_def using b by (auto simp: isNegative_def)
  show "isZero a = (getSExtValue a = 0)"
    unfolding getSExtValue_def isZero_def isNegative_def using b h by auto
qed

lemma stepValDefault_value:
  assumes "1 < w"
  shows "getSExtValue (mkAPInt w 1 True) = 1" "\<not> isNegative (mkAPInt w 1 True)"
proof -
  have "to_int64 1 = 1" by (rule to_int64_id) simp_all
  moreover have "(1 :: int) < 2 ^ w" using assms
    by (metis one_less_numeral_iff one_less_power semiring_norm(76) less_trans zero_less_one not_less_iff_gr_or_eq power_0 power_strict_increasing_iff)
  ultimately have v: "VAL (mkAPInt w 1 True) = 1" using assms by (simp add: mkAPInt_def)
  have "(1 :: int) < 2 ^ (w - 1)" using assms
    by (metis one_less_numeral_iff one_less_power semiring_norm(76) zero_less_diff)
  then show "\<not> isNegative (mkAPInt w 1 True)" using v by (simp add: isNegative_def mkAPInt_def)
  then show "getSExtValue (mkAPInt w 1 True) = 1" using v by (simp add: getSExtValue_def)
qed

lemma ex_loop_parts:
  "getSingleInductionVar (ex_loop n lb ub st p) = Some (Value (1000 + n) (IntegerType 32) None)"
  "getSingleLowerBound (ex_loop n lb ub st p) = Some (ex_attr lb)"
  "getSingleUpperBound (ex_loop n lb ub st p) = Some (ex_attr ub)"
  "getSingleStep (ex_loop n lb ub st p) = Some (ex_attr st)"
  "32 = getStorageBitwidth (getType (Value (1000 + n) (IntegerType 32) None))"
  by (simp_all add: ex_loop_def getStorageBitwidth_def)

lemma ex_attr_resolved:
  "getLoopRangeInfo store w (Some (ex_attr k)) g d = mkAPInt 32 (to_uint64 k) True"
  by (simp add: getLoopRangeInfo_def ex_attr_def)

lemma ex_attr_values:
  "getSExtValue (mkAPInt 32 (to_uint64 0) True) = 0"
  "getSExtValue (mkAPInt 32 (to_uint64 1) True) = 1"
  "getSExtValue (mkAPInt 32 (to_uint64 (- 1)) True) = - 1"
  "getSExtValue (mkAPInt 32 (to_uint64 10) True) = 10"
  "getSExtValue (mkAPInt 32 (to_uint64 1024) True) = 1024"
  "wellFormed (mkAPInt 32 (to_uint64 0) True)"
  "wellFormed (mkAPInt 32 (to_uint64 1) True)"
  "wellFormed (mkAPInt 32 (to_uint64 (- 1)) True)"
  by (simp_all add: getSExtValue_def isNegative_def mkAPInt_def to_uint64_def to_int64_def wellFormed_def)

text \<open>
  C4.  For a loop with a single induction variable of width \<open>w\<close> whose bounds and step
  resolve to \<open>lower\<close>, \<open>upper\<close> and \<open>step\<close>, read as signed numbers, the step being a
  well-formed value of non-zero width:
  a positive step gives \<open>ceil((upper - lower) / step)\<close> when \<open>upper \<ge> lower\<close> and no
  value otherwise, if \<open>upper - lower\<close> is below \<open>2 ^ 63\<close>;
  a zero step is treated as 1, if \<open>upper - lower\<close> is below \<open>2 ^ 63\<close> and the induction
  variable is wider than one bit (the step is replaced by the constant 1 at width \<open>w\<close>,
  which reads -1 at width 1);
  with a negative step the bounds are swapped before they are compared, so that a value
  is returned exactly when \<open>lower \<ge> upper\<close>.
\<close>

theorem maybeGetTripCount_formula:
  assumes "getSingleInductionVar loop = Some iv"
    and "w = getStorageBitwidth (getType iv)"
    and "lower = getLoopRangeInfo store w (getSingleLowerBound loop) (Some False) None"
    and "upper = getLoopRangeInfo store w (getSingleUpperBound loop) (Some True) None"
    and "step = getLoopRangeInfo store w (getSingleStep loop) None (Some (mkAPInt w 1 True))"
    and "wellFormed step"
    and "l = getSExtValue lower" "u = getSExtValue upper" "s = getSExtValue step"
  shows "(0 < s \<and> u - l < 2 ^ 63 \<longrightarrow>
            maybeGetTripCount store loop
              = (if l \<le> u then Some \<lceil>real_of_int (u - l) / real_of_int s\<rceil> else None))
       \<and> (s = 0 \<and> 1 < w \<and> u - l < 2 ^ 63 \<longrightarrow>
            maybeGetTripCount store loop
              = (if l \<le> u then Some \<lceil>real_of_int (u - l) / real_of_int 1\<rceil> else None))
       \<and> (s < 0 \<longrightarrow> (maybeGetTripCount store loop \<noteq> None) = (u \<le> l))"
proof -
  note sgn = wellFormed_sign [OF assms(6), folded assms(9)]
  have unf: "maybeGetTripCount store loop =
     (let min' = (if isNegative step then upper else lower);
          max' = (if isNegative step then lower else upper);
          stepVal = (if isZero step then mkAPInt w 1 True else step)
      in if sge max' min'
         then Some (divideCeilSigned (to_int64 (getSExtValue max' - getSExtValue min'))
                                     (getSExtValue stepVal))
         else None)"
    unfolding maybeGetTripCount_def assms(1) option.case Let_def
      assms(2) [symmetric] assms(3) [symmetric] assms(4) [symmetric] assms(5) [symmetric] ..
  have wrap: "to_int64 (u - l) = u - l" if "l \<le> u" "u - l < 2 ^ 63"
    using that by (intro to_int64_id) simp_all
  have pos: "maybeGetTripCount store loop
              = (if l \<le> u then Some \<lceil>real_of_int (u - l) / real_of_int s\<rceil> else None)"
    if "0 < s" "u - l < 2 ^ 63"
  proof -
    have "\<not> isNegative step" "\<not> isZero step" using that(1) sgn by simp_all
    then show ?thesis unfolding unf Let_def
      using that wrap divideCeilSigned_pos [of "u - l" s]
      by (simp add: sge_def assms(7,8,9) [symmetric])
  qed
  have zero: "maybeGetTripCount store loop
              = (if l \<le> u then Some \<lceil>real_of_int (u - l) / real_of_int 1\<rceil> else None)"
    if "s = 0" "1 < w" "u - l < 2 ^ 63"
  proof -
    have "\<not> isNegative step" "isZero step" using that(1) sgn by simp_all
    then show ?thesis unfolding unf Let_def
      using that wrap divideCeilSigned_pos [of "u - l" 1] stepValDefault_value(1) [OF that(2)]
      by (simp add: sge_def assms(7,8,9) [symmetric])
  qed
  have neg: "(maybeGetTripCount store loop \<noteq> None) = (u \<le> l)" if "s < 0"
  proof -
    have "isNegative step" using that sgn by simp
    then show ?thesis unfolding unf Let_def
      by (simp add: sge_def assms(7,8,9) [symmetric])
  qed
  from pos zero neg show ?thesis by blast
qed

text \<open>
  The theorem at the loops \<open>(0, 1024, 1)\<close>, \<open>(0, 10, 0)\<close> and \<open>(1024, 0, -1)\<close>, written
  (lower, upper, step).
\<close>

theorem maybeGetTripCount_formula_witness:
  "maybeGetTripCount Map.empty (ex_loop 1 0 1024 1 None) = Some 1024
   \<and> maybeGetTripCount Map.empty (ex_loop 1 0 10 0 None) = Some 10
   \<and> maybeGetTripCount Map.empty (ex_loop 1 1024 0 (- 1) None) \<noteq> None"
proof -
  have a: "maybeGetTripCount Map.empty (ex_loop 1 0 1024 1 None) = Some 1024"
    using maybeGetTripCount_formula [where loop = "ex_loop 1 0 1024 1 None" and store = Map.empty
        and w = 32, OF ex_loop_parts(1) ex_loop_parts(5) refl refl refl _ refl refl refl,
        THEN conjunct1]
    by (simp add: ex_loop_parts(2,3,4) ex_attr_resolved ex_attr_values)
  have b: "maybeGetTripCount Map.empty (ex_loop 1 0 10 0 None) = Some 10"
    using maybeGetTripCount_formula [where loop = "ex_loop 1 0 10 0 None" and store = Map.empty
        and w = 32, OF ex_loop_parts(1) ex_loop_parts(5) refl refl refl _ refl refl refl,
        THEN conjunct2, THEN conjunct1]
    by (simp add: ex_loop_parts(2,3,4) ex_attr_resolved ex_attr_values)
  have c: "maybeGetTripCount Map.empty (ex_loop 1 1024 0 (- 1) None) \<noteq> None"
    using maybeGetTripCount_formula [where loop = "ex_loop 1 1024 0 (- 1) None" and store = Map.empty
        and w = 32, OF ex_loop_parts(1) ex_loop_parts(5) refl refl refl _ refl refl refl,
        THEN conjunct2, THEN conjunct2]
    by (simp add: ex_loop_parts(2,3,4) ex_attr_resolved ex_attr_values)
  from a b c show ?thesis by simp
qed

text \<open>For lower 0, upper 1024 and step -1 the trip count is unknown, not 1024.\<close>

theorem negative_step_counterexample:
  "maybeGetTripCount Map.empty (ex_loop 1 0 1024 (- 1) None) = None"
  by code_simp

subsection \<open>The total trip count\<close>

lemma to_int64_cong:
  "to_int64 (to_int64 a * b) = to_int64 (a * b)"
proof -
  have "(to_int64 a * b + 2 ^ 63) mod 2 ^ 64 = (a * b + 2 ^ 63) mod 2 ^ 64"
  proof -
    have "to_int64 a mod 2 ^ 64 = a mod 2 ^ 64"
      by (rule to_int64_mod) simp
    then have "(to_int64 a * b) mod 2 ^ 64 = (a * b) mod 2 ^ 64"
      by (metis mod_mult_left_eq)
    then show ?thesis by (metis mod_add_left_eq)
  qed
  then show ?thesis by (simp add: to_int64_def)
qed

lemma foldl_to_int64:
  "foldl (\<lambda>accum x. to_int64 (accum * f x)) (to_int64 a) xs = to_int64 (a * prod_list (map f xs))"
proof (induction xs arbitrary: a)
  case Nil
  show ?case by simp
next
  case (Cons x xs)
  have "foldl (\<lambda>accum x. to_int64 (accum * f x)) (to_int64 a) (x # xs)
      = foldl (\<lambda>accum x. to_int64 (accum * f x)) (to_int64 (a * f x)) xs"
    by (simp add: to_int64_cong)
  also have "\<dots> = to_int64 (a * f x * prod_list (map f xs))" by (rule Cons.IH)
  finally show ?case by (simp add: mult.assoc)
qed

lemma enclosingLoopsFrom_ancestors:
  "enclosingLoopsFrom p ops =
     ops @ filter isaLoopLikeOpInterface (case p of None \<Rightarrow> [] | Some q \<Rightarrow> q # ancestors q)"
proof (induction p ops rule: enclosingLoopsFrom.induct)
  case (1 ops)
  show ?case by simp
next
  case (2 i k p ops)
  have anc: "ancestors (Operation i k p) = (case p of None \<Rightarrow> [] | Some q \<Rightarrow> q # ancestors q)"
    by (cases p) simp_all
  show ?case using "2.IH" by (simp add: anc del: isaLoopLikeOpInterface.simps)
qed

lemma getEnclosingLoops_ancestors:
  "getEnclosingLoops op ops = ops @ filter isaLoopLikeOpInterface (ancestors op)"
proof (cases op)
  case (Operation i k p)
  have anc: "ancestors (Operation i k p) = (case p of None \<Rightarrow> [] | Some q \<Rightarrow> q # ancestors q)"
    by (cases p) simp_all
  show ?thesis unfolding getEnclosingLoops_def Operation
    by (simp add: enclosingLoopsFrom_ancestors anc)
qed

text \<open>
  C9.  \<open>getTotalLoopTripCount\<close> returns the product, over the loop itself and every
  loop-like operation among its ancestors, of the loop's trip count, with 1025 for an
  unknown trip count, taken in \<open>int64_t\<close>: the product reduced modulo \<open>2 ^ 64\<close> into the
  signed range.  It is the exact product whenever that fits in 64 bits.
\<close>

theorem getTotalLoopTripCount_product:
  "getTotalLoopTripCount store loop = to_int64 (productOfTripCounts store loop)
   \<and> (- (2 ^ 63) \<le> productOfTripCounts store loop \<and> productOfTripCounts store loop < 2 ^ 63
        \<longrightarrow> getTotalLoopTripCount store loop = productOfTripCounts store loop)"
proof -
  have one: "(1 :: int) = to_int64 1" by (rule to_int64_id [symmetric]) simp_all
  have f: "(\<lambda>accum loop'. to_int64 (accum * (case maybeGetTripCount store loop' of
                                       Some t \<Rightarrow> t | None \<Rightarrow> kDefaultMaxTripCount + 1)))
         = (\<lambda>accum x. to_int64 (accum * tripCountOrSentinel store x))"
    unfolding tripCountOrSentinel_def kDefaultMaxTripCount_def ..
  have "getTotalLoopTripCount store loop
      = foldl (\<lambda>accum x. to_int64 (accum * tripCountOrSentinel store x)) (to_int64 1)
              (loop # filter isaLoopLikeOpInterface (ancestors loop))"
    unfolding getTotalLoopTripCount_def Let_def f getEnclosingLoops_ancestors one [symmetric] by simp
  also have "\<dots> = to_int64 (1 * prod_list (map (tripCountOrSentinel store)
                                   (loop # filter isaLoopLikeOpInterface (ancestors loop))))"
    by (rule foldl_to_int64)
  finally have eq: "getTotalLoopTripCount store loop = to_int64 (productOfTripCounts store loop)"
    by (simp add: productOfTripCounts_def)
  then show ?thesis using to_int64_id [of "productOfTripCounts store loop"] by simp
qed

text \<open>The theorem at a nest of three loops with trip counts 10, unknown and 7.\<close>

theorem getTotalLoopTripCount_product_witness:
  "productOfTripCounts Map.empty ex_nest = 10 * 1025 * 7
   \<and> getTotalLoopTripCount Map.empty ex_nest = 10 * 1025 * 7"
proof -
  have p: "productOfTripCounts Map.empty ex_nest = 10 * 1025 * 7" by code_simp
  from getTotalLoopTripCount_product [of Map.empty ex_nest, THEN conjunct2] p
  show ?thesis by simp
qed

text \<open>
  The product itself is not what is returned when it leaves 64 bits.  Two nested loops
  over \<open>index\<close> values whose upper bounds have no range have \<open>2 ^ 63 - 1\<close> iterations each,
  and the total is 1; three nested loops of \<open>2 ^ 31 - 1\<close> iterations have a total below
  the product.
\<close>

theorem total_trip_count_wraps_counterexample:
  "maybeGetTripCount Map.empty (ex_index_loop 2 None) = Some (2 ^ 63 - 1)
   \<and> productOfTripCounts Map.empty ex_index_nest = (2 ^ 63 - 1) * (2 ^ 63 - 1)
   \<and> getTotalLoopTripCount Map.empty ex_index_nest = 1
   \<and> productOfTripCounts Map.empty ex_i32_nest = 2147483647 * 2147483647 * 2147483647
   \<and> getTotalLoopTripCount Map.empty ex_i32_nest = 4611686024869838847"
  by code_simp

subsection \<open>The widening branch of the driver\<close>

lemma Lattice_join_cell:
  "getLatticeElement (snd (Lattice_join c r store)) c
     = IntegerValueRange_join (getLatticeElement store c) r"
  by (simp add: Lattice_join_def Let_def getLatticeElement_def)

lemma Lattice_join_changed:
  "fst (Lattice_join c r store)
     = (IntegerValueRange_join (getLatticeElement store c) r \<noteq> getLatticeElement store c)"
  by (simp add: Lattice_join_def Let_def)

text \<open>
  C2.  For a pair of an operand and a target cell attributable to a loop whose recorded
  total trip count exceeds 1024: when the visit counter of the pair is below the recorded
  count, the cell is joined with the max-range for the operand, and the counter is
  incremented exactly when the join changes the cell; when the counter has reached the
  recorded count, the pair is skipped.
\<close>

theorem widening_branch:
  assumes "kDefaultMaxTripCount < loopTripCountsAt st l"
    and "st' = visitOperand (Some l) (oper, argLat) st"
    and "old = getLatticeElement (latticeValues st) argLat"
  shows "if loopVisits st (l, argLat) < loopTripCountsAt st l
         then getLatticeElement (latticeValues st') argLat
                = IntegerValueRange_join old (getMaxRange oper)
              \<and> loopVisits st' (l, argLat)
                = loopVisits st (l, argLat)
                  + (if IntegerValueRange_join old (getMaxRange oper) \<noteq> old then 1 else 0)
         else st' = st"
proof (cases "loopVisits st (l, argLat) < loopTripCountsAt st l")
  case False
  then show ?thesis unfolding assms(2) visitOperand_def by simp
next
  case True
  obtain changed store' where j: "Lattice_join argLat (getMaxRange oper) (latticeValues st) = (changed, store')"
    by (cases "Lattice_join argLat (getMaxRange oper) (latticeValues st)")
  have c: "changed = (IntegerValueRange_join old (getMaxRange oper) \<noteq> old)"
    using Lattice_join_changed [of argLat "getMaxRange oper" "latticeValues st"] j assms(3) by simp
  have s: "getLatticeElement store' argLat = IntegerValueRange_join old (getMaxRange oper)"
    using Lattice_join_cell [of argLat "getMaxRange oper" "latticeValues st"] j assms(3) by simp
  have "st' = (if changed
               then st\<lparr>latticeValues := store',
                       loopVisits := (loopVisits st)((l, argLat) := loopVisits st (l, argLat) + 1)\<rparr>
               else st\<lparr>latticeValues := store'\<rparr>)"
    unfolding assms(2) visitOperand_def using True assms(1) j by (simp add: Let_def)
  then show ?thesis using True c s by simp
qed

text \<open>The theorem at the first pair of a loop of 2000 iterations.\<close>

theorem widening_branch_witness:
  "kDefaultMaxTripCount < loopTripCountsAt ex_wide_state (ex_loop 1 0 2000 1 None)
   \<and> loopVisits ex_wide_state (ex_loop 1 0 2000 1 None, ex_i32 50) = 0
   \<and> getLatticeElement (latticeValues (visitOperand (Some (ex_loop 1 0 2000 1 None))
                                         (ex_i32 51, ex_i32 50) ex_wide_state)) (ex_i32 50)
       = getMaxRange (ex_i32 51)
   \<and> loopVisits (visitOperand (Some (ex_loop 1 0 2000 1 None)) (ex_i32 51, ex_i32 50) ex_wide_state)
               (ex_loop 1 0 2000 1 None, ex_i32 50) = 1"
proof -
  have tc: "loopTripCountsAt ex_wide_state (ex_loop 1 0 2000 1 None) = 2000" by code_simp
  have v: "loopVisits ex_wide_state (ex_loop 1 0 2000 1 None, ex_i32 50) = 0" by code_simp
  have old: "getLatticeElement (latticeValues ex_wide_state) (ex_i32 50) = None" by code_simp
  have mx: "getMaxRange (ex_i32 51) \<noteq> None" by code_simp
  have k: "kDefaultMaxTripCount < loopTripCountsAt ex_wide_state (ex_loop 1 0 2000 1 None)"
    unfolding tc kDefaultMaxTripCount_def by simp
  have lt: "0 < loopTripCountsAt ex_wide_state (ex_loop 1 0 2000 1 None)"
    unfolding tc by simp
  have j: "IntegerValueRange_join None (getMaxRange (ex_i32 51)) = getMaxRange (ex_i32 51)"
    by (simp add: IntegerValueRange_join_def)
  note W = widening_branch [where oper = "ex_i32 51" and argLat = "ex_i32 50", OF k refl refl,
      unfolded if_P [OF lt] old j v]
  have one: "(0 :: int) + (if getMaxRange (ex_i32 51) \<noteq> None then 1 else 0) = 1"
    using mx by simp
  from W have a: "getLatticeElement (latticeValues (visitOperand (Some (ex_loop 1 0 2000 1 None))
                                         (ex_i32 51, ex_i32 50) ex_wide_state)) (ex_i32 50)
       = getMaxRange (ex_i32 51)"
    by (rule conjunct1)
  from W have "loopVisits (visitOperand (Some (ex_loop 1 0 2000 1 None)) (ex_i32 51, ex_i32 50) ex_wide_state)
               (ex_loop 1 0 2000 1 None, ex_i32 50)
       = 0 + (if getMaxRange (ex_i32 51) \<noteq> None then 1 else 0)"
    by (rule conjunct2)
  then have b: "loopVisits (visitOperand (Some (ex_loop 1 0 2000 1 None)) (ex_i32 51, ex_i32 50) ex_wide_state)
               (ex_loop 1 0 2000 1 None, ex_i32 50) = 1"
    unfolding one .
  from k v a b show ?thesis by (intro conjI)
qed

text \<open>
  One visit of a loop of 2000 iterations: the cell is widened to max-range and the
  counter of the pair is 1 afterwards.
\<close>

theorem widening_increments_counterexample:
  "(case ex_wide_visit of
      Inr st \<Rightarrow> Some (loopTripCounts st (ex_loop 1 0 2000 1 None),
                      latticeValues st (ex_i32 50) = Some (getMaxRange (ex_i32 51)),
                      loopVisits st (ex_loop 1 0 2000 1 None, ex_i32 50))
    | Inl e \<Rightarrow> None)
   = Some (Some 2000, True, 1)"
  by code_simp

subsection \<open>Visit counters and trip-count bounds\<close>


lemma loopTripCountsAt_cong:
  "loopTripCounts s' = loopTripCounts s \<Longrightarrow> loopTripCountsAt s' l = loopTripCountsAt s l"
  by (simp add: loopTripCountsAt_def)














lemma updateLoopTripCount_lattice:
  "latticeValues (updateLoopTripCount l0 cells s) = latticeValues s"
  by (simp add: updateLoopTripCount_def Let_def)





















subsection \<open>Static-comparison folding\<close>

















end
